theory Spec2Isabelle
  imports Main "HOL-Library.Word" "HOL-Library.Char_ord"
begin

section \<open>Errors\<close>

text \<open>
  A Go \<open>error\<close> value. \<open>ErrorNew m\<close> is an error created with a message only
  (\<open>errors.New\<close>, \<open>fmt.Errorf\<close> without \<open>%w\<close>, an error handed back by a library);
  \<open>ErrorWrap m e\<close> is the result of \<open>fmt.Errorf("... %w", e)\<close>: \<open>m\<close> is the text
  before the wrapped error's own text, \<open>e\<close> is what \<open>Unwrap\<close> returns.
\<close>

datatype error = ErrorNew string | ErrorWrap string error

fun Error :: "error \<Rightarrow> string" where
  "Error (ErrorNew m) = m"
| "Error (ErrorWrap m e) = m @ Error e"

section \<open>Package actions: cache keys\<close>

text \<open>Source: \<^verbatim>\<open>src/internal/actions/cache_key.go\<close>.\<close>

record VersionKey =
  Owner :: string
  Repo :: string
  Ref :: string
  Pattern :: string

definition NewConstrainedKey :: "string \<Rightarrow> string \<Rightarrow> string \<Rightarrow> string \<Rightarrow> VersionKey" where
  "NewConstrainedKey owner repo ref pattern =
     \<lparr>Owner = owner, Repo = repo, Ref = ref, Pattern = pattern\<rparr>"

definition NewUnconstrainedKey :: "string \<Rightarrow> string \<Rightarrow> VersionKey" where
  "NewUnconstrainedKey owner repo = \<lparr>Owner = owner, Repo = repo, Ref = [], Pattern = []\<rparr>"

definition IsConstrained :: "VersionKey \<Rightarrow> bool" where
  "IsConstrained k = (Ref k \<noteq> [] \<or> Pattern k \<noteq> [])"

definition String :: "VersionKey \<Rightarrow> string" where
  "String k =
     (if \<not> IsConstrained k then Owner k @ ''/'' @ Repo k
      else Owner k @ ''/'' @ Repo k @ '':'' @ Ref k @ '':'' @ Pattern k)"

section \<open>Package actions: the cache\<close>

text \<open>
  Source: \<^verbatim>\<open>src/internal/actions/parser.go\<close>, the part that declares \<open>Cache\<close>.
\<close>

text \<open>
  Modelled from the spec: the declaration of \<open>VersionResult\<close> and its constructor
  \<open>NewVersionResult\<close> are not among the sources; the spec gives "resolved tag name,
  resolved commit hash, and an error value", and the code reads the fields \<open>Tag\<close>,
  \<open>Hash\<close> and \<open>Err\<close>. A nil error is \<open>None\<close>.
\<close>

record VersionResult =
  Tag :: string
  Hash :: string
  Err :: "error option"

definition NewVersionResult :: "string \<Rightarrow> string \<Rightarrow> error option \<Rightarrow> VersionResult" where
  "NewVersionResult tag hash err = \<lparr>Tag = tag, Hash = hash, Err = err\<rparr>"

text \<open>The zero value \<open>VersionResult{}\<close>.\<close>

definition VersionResult_zero :: VersionResult where
  "VersionResult_zero = \<lparr>Tag = [], Hash = [], Err = None\<rparr>"

record CacheStats =
  Hits :: "64 word"
  Misses :: "64 word"

text \<open>
  The two Go maps are partial functions from the key string; the counters are \<open>int64\<close>
  (addition wraps). The mutex serialises the methods, so each is one atomic step on the
  record.
\<close>

record Cache =
  constrained :: "string \<rightharpoonup> VersionResult"
  unconstrained :: "string \<rightharpoonup> VersionResult"
  hits :: "64 word"
  misses :: "64 word"

definition NewCache :: Cache where
  "NewCache = \<lparr>constrained = Map.empty, unconstrained = Map.empty, hits = 0, misses = 0\<rparr>"

text \<open>Each getter returns the result, the found flag and the cache after the call.\<close>

definition GetConstrained :: "Cache \<Rightarrow> VersionKey \<Rightarrow> (VersionResult \<times> bool) \<times> Cache" where
  "GetConstrained c key =
     (case constrained c (String key) of
        Some cached \<Rightarrow> ((cached, True), c\<lparr>hits := hits c + 1\<rparr>)
      | None \<Rightarrow> ((VersionResult_zero, False), c))"

definition SetConstrained :: "Cache \<Rightarrow> VersionKey \<Rightarrow> VersionResult \<Rightarrow> Cache" where
  "SetConstrained c key result =
     c\<lparr>constrained := (constrained c)(String key \<mapsto> result), misses := misses c + 1\<rparr>"

definition GetUnconstrained :: "Cache \<Rightarrow> VersionKey \<Rightarrow> (VersionResult \<times> bool) \<times> Cache" where
  "GetUnconstrained c key =
     (case unconstrained c (String key) of
        Some cached \<Rightarrow> ((cached, True), c\<lparr>hits := hits c + 1\<rparr>)
      | None \<Rightarrow> ((VersionResult_zero, False), c))"

definition SetUnconstrained :: "Cache \<Rightarrow> VersionKey \<Rightarrow> VersionResult \<Rightarrow> Cache" where
  "SetUnconstrained c key result =
     c\<lparr>unconstrained := (unconstrained c)(String key \<mapsto> result), misses := misses c + 1\<rparr>"

definition Clear :: "Cache \<Rightarrow> Cache" where
  "Clear c = c\<lparr>constrained := Map.empty, unconstrained := Map.empty, hits := 0, misses := 0\<rparr>"

definition Stats :: "Cache \<Rightarrow> CacheStats" where
  "Stats c = \<lparr>Hits = hits c, Misses = misses c\<rparr>"

text \<open>
  A sequence of cache operations, as a client of the cache issues them, and the cache it
  leaves behind when it starts from \<open>NewCache\<close>.
\<close>

datatype cache_op =
    OpSetConstrained VersionKey VersionResult
  | OpSetUnconstrained VersionKey VersionResult
  | OpGetConstrained VersionKey
  | OpGetUnconstrained VersionKey
  | OpClear

fun apply_cache_op :: "cache_op \<Rightarrow> Cache \<Rightarrow> Cache" where
  "apply_cache_op (OpSetConstrained k r) c = SetConstrained c k r"
| "apply_cache_op (OpSetUnconstrained k r) c = SetUnconstrained c k r"
| "apply_cache_op (OpGetConstrained k) c = snd (GetConstrained c k)"
| "apply_cache_op (OpGetUnconstrained k) c = snd (GetUnconstrained c k)"
| "apply_cache_op OpClear c = Clear c"

definition run_cache_ops :: "cache_op list \<Rightarrow> Cache" where
  "run_cache_ops ops = fold apply_cache_op ops NewCache"

text \<open>
  The stores that write under the unconstrained key of a repository, whichever map they
  write to, and those that write under a constrained key of it.
\<close>

fun stores_under_unconstrained :: "string \<Rightarrow> string \<Rightarrow> cache_op \<Rightarrow> bool" where
  "stores_under_unconstrained owner repo (OpSetConstrained k r) =
     (k = NewUnconstrainedKey owner repo)"
| "stores_under_unconstrained owner repo (OpSetUnconstrained k r) =
     (k = NewUnconstrainedKey owner repo)"
| "stores_under_unconstrained owner repo _ = False"

fun stores_under_constrained :: "string \<Rightarrow> string \<Rightarrow> cache_op \<Rightarrow> bool" where
  "stores_under_constrained owner repo (OpSetConstrained k r) =
     (Owner k = owner \<and> Repo k = repo \<and> IsConstrained k)"
| "stores_under_constrained owner repo (OpSetUnconstrained k r) =
     (Owner k = owner \<and> Repo k = repo \<and> IsConstrained k)"
| "stores_under_constrained owner repo _ = False"

section \<open>Go strings\<close>

text \<open>
  A Go string is a sequence of bytes; \<open>char\<close> is a byte and \<open>length\<close> is Go's \<open>len\<close>.
  The functions of package \<open>strings\<close> that the sources call are written out here after
  their documentation. Cutsets and separators in the sources are ASCII, where trimming by
  rune and trimming by byte coincide.
\<close>

definition HasPrefix :: "string \<Rightarrow> string \<Rightarrow> bool" where
  "HasPrefix s p = (take (length p) s = p)"

definition TrimPrefix :: "string \<Rightarrow> string \<Rightarrow> string" where
  "TrimPrefix s p = (if HasPrefix s p then drop (length p) s else s)"

text \<open>\<open>CutPrefix\<close> returns \<open>(after, true)\<close> as \<open>Some after\<close> and \<open>(s, false)\<close> as \<open>None\<close>.\<close>

definition CutPrefix :: "string \<Rightarrow> string \<Rightarrow> string option" where
  "CutPrefix s p = (if HasPrefix s p then Some (drop (length p) s) else None)"

definition TrimLeft :: "string \<Rightarrow> string \<Rightarrow> string" where
  "TrimLeft s cutset = dropWhile (\<lambda>c. c \<in> set cutset) s"

definition TrimRight :: "string \<Rightarrow> string \<Rightarrow> string" where
  "TrimRight s cutset = rev (dropWhile (\<lambda>c. c \<in> set cutset) (rev s))"

text \<open>
  \<open>Index s sub\<close> is the byte offset of the first occurrence of \<open>sub\<close> in \<open>s\<close>, or \<open>-1\<close>.
\<close>

fun Index :: "string \<Rightarrow> string \<Rightarrow> int" where
  "Index [] sub = (if sub = [] then 0 else -1)"
| "Index (c # cs) sub =
     (if HasPrefix (c # cs) sub then 0
      else (let i = Index cs sub in if i < 0 then -1 else i + 1))"

definition Contains :: "string \<Rightarrow> string \<Rightarrow> bool" where
  "Contains s sub = (Index s sub \<ge> 0)"

text \<open>
  \<open>Replace s old new 1\<close>: the first occurrence of \<open>old\<close> replaced; an empty \<open>old\<close>
  matches at the beginning of the string.
\<close>

definition Replace1 :: "string \<Rightarrow> string \<Rightarrow> string \<Rightarrow> string" where
  "Replace1 s old new =
     (let i = Index s old in
      if i < 0 then s
      else take (nat i) s @ new @ drop (nat i + length old) s)"

text \<open>\<open>Split s "\n"\<close> and \<open>Join lines "\n"\<close>.\<close>

fun Split_newline :: "string \<Rightarrow> string list" where
  "Split_newline [] = [[]]"
| "Split_newline (c # cs) =
     (if c = CHR 0x0A then [] # Split_newline cs
      else (case Split_newline cs of
              [] \<Rightarrow> [[c]]
            | l # ls \<Rightarrow> (c # l) # ls))"

fun Join_newline :: "string list \<Rightarrow> string" where
  "Join_newline [] = []"
| "Join_newline [l] = l"
| "Join_newline (l # m # ls) = l @ [CHR 0x0A] @ Join_newline (m # ls)"

text \<open>\<open>Repeat s count\<close> panics on a negative count: \<open>None\<close>.\<close>

definition Repeat :: "string \<Rightarrow> int \<Rightarrow> string option" where
  "Repeat s count = (if count < 0 then None else Some (concat (replicate (nat count) s)))"

text \<open>
  White space as \<open>unicode.IsSpace\<close> has it, on the UTF-8 bytes: \<open>space_width s\<close> is the
  number of bytes of the white-space rune that \<open>s\<close> starts with, \<open>0\<close> when it starts with
  none. The runes are tab, line feed, vertical tab, form feed, carriage return, space,
  U+0085, U+00A0, U+1680, U+2000 to U+200A, U+2028, U+2029, U+202F, U+205F and U+3000.
\<close>

definition ascii_space :: "char \<Rightarrow> bool" where
  "ascii_space c = (c \<in> {CHR 0x09, CHR 0x0A, CHR 0x0B, CHR 0x0C, CHR 0x0D, CHR 0x20})"

fun space_width :: "string \<Rightarrow> nat" where
  "space_width [] = 0"
| "space_width [a] = (if ascii_space a then 1 else 0)"
| "space_width [a, b] =
     (if ascii_space a then 1
      else if a = CHR 0xC2 \<and> (b = CHR 0x85 \<or> b = CHR 0xA0) then 2 else 0)"
| "space_width (a # b # c # _) =
     (if ascii_space a then 1
      else if a = CHR 0xC2 \<and> (b = CHR 0x85 \<or> b = CHR 0xA0) then 2
      else if a = CHR 0xE1 \<and> b = CHR 0x9A \<and> c = CHR 0x80 then 3
      else if a = CHR 0xE2 \<and> b = CHR 0x80 \<and>
              (of_char c \<in> {0x80 .. (0x8A::nat)} \<or> c = CHR 0xA8 \<or> c = CHR 0xA9 \<or> c = CHR 0xAF)
        then 3
      else if a = CHR 0xE2 \<and> b = CHR 0x81 \<and> c = CHR 0x9F then 3
      else if a = CHR 0xE3 \<and> b = CHR 0x80 \<and> c = CHR 0x80 then 3
      else 0)"

text \<open>
  The same read from the end of the string (\<open>DecodeLastRuneInString\<close>): the number of
  bytes of the white-space rune that \<open>s\<close> ends with.
\<close>

definition space_width_last :: "string \<Rightarrow> nat" where
  "space_width_last s =
     (let n = length s in
      if n \<ge> 1 \<and> space_width (drop (n - 1) s) = 1 then 1
      else if n \<ge> 2 \<and> space_width (drop (n - 2) s) = 2 then 2
      else if n \<ge> 3 \<and> space_width (drop (n - 3) s) = 3 then 3
      else 0)"

function trim_space_left :: "string \<Rightarrow> string" where
  "trim_space_left s =
     (if s = [] \<or> space_width s = 0 then s
      else trim_space_left (drop (space_width s) s))"
  by pat_completeness auto
termination
  by (relation "measure length") auto

declare trim_space_left.simps [simp del]

function trim_space_right :: "string \<Rightarrow> string" where
  "trim_space_right s =
     (if s = [] \<or> space_width_last s = 0 then s
      else trim_space_right (take (length s - space_width_last s) s))"
  by pat_completeness auto
termination
  by (relation "measure length") auto

declare trim_space_right.simps [simp del]

definition TrimSpace :: "string \<Rightarrow> string" where
  "TrimSpace s = trim_space_right (trim_space_left s)"

section \<open>Package actions: references\<close>

text \<open>Source: \<^verbatim>\<open>src/internal/actions/parser.go\<close>, its first part.\<close>

text \<open>
  Package \<open>version\<close> is imported by the sources and is not among them. Its four
  functions are a parameter of everything that calls them.
\<close>

record version_pkg =
  Compare :: "string \<Rightarrow> string \<Rightarrow> int"
  Normalize :: "string \<Rightarrow> string"
  ExtractMajor :: "string \<Rightarrow> int"
  ExtractMajorMinor :: "string \<Rightarrow> int \<times> int"

text \<open>
  \<open>IsCommitHash\<close> ranges over the runes of \<open>ref\<close>; a rune that is not one byte is not
  a hexadecimal digit, so the test is the same on the bytes.
\<close>

definition is_hex_digit :: "char \<Rightarrow> bool" where
  "is_hex_digit c =
     (let isDigit = (CHR ''0'' \<le> c \<and> c \<le> CHR ''9'');
          isLowerHex = (CHR ''a'' \<le> c \<and> c \<le> CHR ''f'');
          isUpperHex = (CHR ''A'' \<le> c \<and> c \<le> CHR ''F'')
      in isDigit \<or> isLowerHex \<or> isUpperHex)"

definition IsCommitHash :: "string \<Rightarrow> bool" where
  "IsCommitHash ref = (if length ref \<noteq> 40 then False else list_all is_hex_digit ref)"

definition IsMajorVersionOnly :: "version_pkg \<Rightarrow> string \<Rightarrow> bool" where
  "IsMajorVersionOnly ver ref0 =
     (let ref = Normalize ver ref0 in
      if ref = [] then False
      else list_all (\<lambda>c. \<not> (c < CHR ''0'' \<or> c > CHR ''9'')) ref)"

section \<open>Package actions: the client\<close>

text \<open>
  Source: \<^verbatim>\<open>src/internal/stringutil/stringutil_test.go\<close>, the part of package
  \<open>actions\<close> that declares \<open>Client\<close>.
\<close>

text \<open>
  The remote API, as far as the client uses it. Each function takes first the number of
  requests the client has sent before this one, so the remote may answer the same
  question differently at different times. \<open>ListTags\<close> takes the owner, the repository
  and the page, and returns the tags of the page and \<open>NextPage\<close>; \<open>GetRef\<close> returns
  the object's SHA, \<open>None\<close> when the reference has no object.
\<close>

record RepositoryTag =
  GetName :: string
  GetCommitSHA :: string

record GitHubAPI =
  ListTags :: "nat \<Rightarrow> string \<Rightarrow> string \<Rightarrow> int \<Rightarrow> error + (RepositoryTag list \<times> int)"
  GetRef :: "nat \<Rightarrow> string \<Rightarrow> string \<Rightarrow> string \<Rightarrow> error + string option"

record tagInfo =
  tag :: string
  hash :: string

text \<open>
  The client: its cache, whether the API client has been built (\<open>clientOnce\<close>), and the
  number of requests it has sent to the API so far.
\<close>

record Client =
  cache :: Cache
  github :: bool
  requests :: nat

definition NewClientWithCache :: "Cache \<Rightarrow> Client" where
  "NewClientWithCache c = \<lparr>cache = c, github = False, requests = 0\<rparr>"

definition getGitHubClient :: "Client \<Rightarrow> Client" where
  "getGitHubClient c = c\<lparr>github := True\<rparr>"

text \<open>
  The callback of \<open>paginateTags\<close> updates the variables it captured and says whether to
  go on: a function from the captured state and a tag to the new state and the flag.
  \<open>each_tag\<close> is the inner loop over one page.
\<close>

fun each_tag :: "('a \<Rightarrow> RepositoryTag \<Rightarrow> 'a \<times> bool) \<Rightarrow> 'a \<Rightarrow> RepositoryTag list \<Rightarrow> 'a \<times> bool" where
  "each_tag fn acc [] = (acc, True)"
| "each_tag fn acc (t # ts) =
     (case fn acc t of
        (acc', False) \<Rightarrow> (acc', False)
      | (acc', True) \<Rightarrow> each_tag fn acc' ts)"

text \<open>
  The page loop runs as long as the remote names a next page; the first argument bounds
  the number of pages fetched, and \<open>None\<close> is a loop that has not ended within it.
\<close>

fun paginate_from :: "nat \<Rightarrow> GitHubAPI \<Rightarrow> Client \<Rightarrow> string \<Rightarrow> string \<Rightarrow>
    ('a \<Rightarrow> RepositoryTag \<Rightarrow> 'a \<times> bool) \<Rightarrow> 'a \<Rightarrow> int \<Rightarrow> ((error option \<times> 'a) \<times> Client) option" where
  "paginate_from 0 api c owner repo fn acc page = None"
| "paginate_from (Suc fuel) api c owner repo fn acc page =
     (let c' = c\<lparr>requests := requests c + 1\<rparr> in
      case ListTags api (requests c) owner repo page of
        Inl err \<Rightarrow> Some ((Some (ErrorWrap ''failed to fetch tags: '' err), acc), c')
      | Inr (tags, nextPage) \<Rightarrow>
          (case each_tag fn acc tags of
             (acc', False) \<Rightarrow> Some ((None, acc'), c')
           | (acc', True) \<Rightarrow>
               if nextPage = 0 then Some ((None, acc'), c')
               else paginate_from fuel api c' owner repo fn acc' nextPage))"

definition paginateTags :: "nat \<Rightarrow> GitHubAPI \<Rightarrow> Client \<Rightarrow> string \<Rightarrow> string \<Rightarrow>
    ('a \<Rightarrow> RepositoryTag \<Rightarrow> 'a \<times> bool) \<Rightarrow> 'a \<Rightarrow> ((error option \<times> 'a) \<times> Client) option" where
  "paginateTags fuel api c owner repo fn acc =
     paginate_from fuel api (getGitHubClient c) owner repo fn acc 0"

definition matchesVersionPattern :: "version_pkg \<Rightarrow> string \<Rightarrow> string \<Rightarrow> bool" where
  "matchesVersionPattern ver tagVersion pattern =
     (if pattern = [] then True
      else case CutPrefix pattern ''^'' of
        Some after \<Rightarrow>
          (let patternMajor = ExtractMajor ver after;
               tagMajor = ExtractMajor ver tagVersion
           in if patternMajor = 1 then tagMajor \<ge> 1
              else tagMajor = patternMajor)
      | None \<Rightarrow>
          (case CutPrefix pattern ''~'' of
             Some after \<Rightarrow>
               (let (patternMajor, patternMinor) = ExtractMajorMinor ver after;
                    (tagMajor, tagMinor) = ExtractMajorMinor ver tagVersion
                in tagMajor = patternMajor \<and> tagMinor = patternMinor)
           | None \<Rightarrow> False))"

definition fetchMatchingTags :: "nat \<Rightarrow> GitHubAPI \<Rightarrow> version_pkg \<Rightarrow> Client \<Rightarrow> string \<Rightarrow> string \<Rightarrow>
    string \<Rightarrow> ((error option \<times> tagInfo list) \<times> Client) option" where
  "fetchMatchingTags fuel api ver c owner repo pattern =
     paginateTags fuel api c owner repo
       (\<lambda>matching t.
          (if matchesVersionPattern ver (GetName t) pattern
           then matching @ [\<lparr>tag = GetName t, hash = GetCommitSHA t\<rparr>]
           else matching, True))
       []"

text \<open>The loop of \<open>GetLatestVersion\<close> that keeps the semantically latest tag.\<close>

fun latest_of :: "version_pkg \<Rightarrow> tagInfo \<Rightarrow> tagInfo list \<Rightarrow> tagInfo" where
  "latest_of ver latest [] = latest"
| "latest_of ver latest (t # ts) =
     latest_of ver (if Compare ver (tag t) (tag latest) > 0 then t else latest) ts"

text \<open>
  \<open>GetLatestVersion\<close> returns the tag, the hash, the error and the client after the
  call; \<open>None\<close> when the page loop has not ended within the bound.
\<close>

definition GetLatestVersion :: "nat \<Rightarrow> GitHubAPI \<Rightarrow> version_pkg \<Rightarrow> Client \<Rightarrow> string \<Rightarrow> string \<Rightarrow>
    string \<Rightarrow> string \<Rightarrow> ((string \<times> string \<times> error option) \<times> Client) option" where
  "GetLatestVersion fuel api ver c owner repo currentVersion versionPattern =
     (let key = NewConstrainedKey owner repo currentVersion versionPattern in
      case GetConstrained (cache c) key of
        ((result, True), cache') \<Rightarrow>
          Some ((Tag result, Hash result, Err result), c\<lparr>cache := cache'\<rparr>)
      | ((result, False), cache') \<Rightarrow>
          (case fetchMatchingTags fuel api ver (c\<lparr>cache := cache'\<rparr>) owner repo versionPattern of
             None \<Rightarrow> None
           | Some ((Some err, tags), c1) \<Rightarrow>
               Some (([], [], Some err),
                 c1\<lparr>cache := SetConstrained (cache c1) key (NewVersionResult [] [] (Some err))\<rparr>)
           | Some ((None, tags), c1) \<Rightarrow>
               (case tags of
                  [] \<Rightarrow>
                    (let err = ErrorNew (''no compatible tags found for pattern '' @ versionPattern)
                     in Some (([], [], Some err),
                          c1\<lparr>cache := SetConstrained (cache c1) key
                                         (NewVersionResult [] [] (Some err))\<rparr>))
                | t # ts \<Rightarrow>
                    (let latest = latest_of ver t ts
                     in Some ((tag latest, hash latest, None),
                          c1\<lparr>cache := SetConstrained (cache c1) key
                                         (NewVersionResult (tag latest) (hash latest) None)\<rparr>)))))"

definition GetLatestMinorVersion :: "nat \<Rightarrow> GitHubAPI \<Rightarrow> version_pkg \<Rightarrow> Client \<Rightarrow> string \<Rightarrow> string \<Rightarrow>
    string \<Rightarrow> ((string \<times> string \<times> error option) \<times> Client) option" where
  "GetLatestMinorVersion fuel api ver c owner repo majorVersion0 =
     (let majorVersion = Normalize ver majorVersion0;
          prefix = ''v'' @ majorVersion @ ''.''
      in case paginateTags fuel api c owner repo
                (\<lambda>latest t.
                   (if HasPrefix (GetName t) prefix \<or> GetName t = ''v'' @ majorVersion
                    then (case latest of
                            None \<Rightarrow> Some \<lparr>tag = GetName t, hash = GetCommitSHA t\<rparr>
                          | Some l \<Rightarrow>
                              if Compare ver (GetName t) (tag l) > 0
                              then Some \<lparr>tag = GetName t, hash = GetCommitSHA t\<rparr>
                              else latest)
                    else latest, True))
                None of
           None \<Rightarrow> None
         | Some ((Some err, latest), c1) \<Rightarrow> Some (([], [], Some err), c1)
         | Some ((None, None), c1) \<Rightarrow>
             Some (([], [],
               Some (ErrorNew (''no tags found for major version v'' @ majorVersion))), c1)
         | Some ((None, Some l), c1) \<Rightarrow> Some ((tag l, hash l, None), c1))"

text \<open>
  \<open>GetCommitHash\<close> returns the hash, the error and the client after the call. A
  reference returned without error is taken to be non-nil, as the API client has it.
\<close>

definition GetCommitHash :: "nat \<Rightarrow> GitHubAPI \<Rightarrow> version_pkg \<Rightarrow> Client \<Rightarrow> string \<Rightarrow> string \<Rightarrow>
    string \<Rightarrow> ((string \<times> error option) \<times> Client) option" where
  "GetCommitHash fuel api ver c owner repo ref0 =
     (if IsCommitHash ref0 then Some ((ref0, None), c)
      else
        let ref = TrimPrefix ref0 ''refs/'';
            direct = (\<lambda>c0.
              let c1 = getGitHubClient c0;
                  c2 = c1\<lparr>requests := requests c1 + 1\<rparr>
              in case GetRef api (requests c1) owner repo (''refs/tags/'' @ ref) of
                   Inr (Some sha) \<Rightarrow> Some ((sha, None), c2)
                 | _ \<Rightarrow>
                     (let c3 = c2\<lparr>requests := requests c2 + 1\<rparr>
                      in case GetRef api (requests c2) owner repo (''refs/heads/'' @ ref) of
                           Inl err \<Rightarrow>
                             Some (([], Some (ErrorWrap (''failed to fetch ref '' @ ref @ '': '') err)), c3)
                         | Inr None \<Rightarrow> Some (([], Some (ErrorNew (''ref not found: '' @ ref))), c3)
                         | Inr (Some sha) \<Rightarrow> Some ((sha, None), c3)))
        in if IsMajorVersionOnly ver ref
           then (case GetLatestMinorVersion fuel api ver c owner repo ref of
                   None \<Rightarrow> None
                 | Some ((t, h, None), c1) \<Rightarrow> Some ((h, None), c1)
                 | Some ((t, h, Some err), c1) \<Rightarrow> direct c1)
           else direct c)"

text \<open>
  Modelled from the spec: \<open>version.ExtractMajor\<close> and \<open>version.ExtractMajorMinor\<close> are
  not among the sources. The spec reads tags as "dotted numeric versions (optionally
  v-prefixed)" in which "missing components compare as lower": the major and the minor
  version are the first and the second dotted component read as decimal numbers, \<open>0\<close>
  for a component that is missing or is not a number.
\<close>

fun component :: "string \<Rightarrow> string \<times> string" where
  "component [] = ([], [])"
| "component (c # cs) =
     (if c = CHR ''.'' then ([], cs) else (case component cs of (a, b) \<Rightarrow> (c # a, b)))"

definition digit_value :: "char \<Rightarrow> int" where
  "digit_value c = of_char c - 48"

definition decimal :: "string \<Rightarrow> int" where
  "decimal s =
     (if s \<noteq> [] \<and> list_all (\<lambda>c. CHR ''0'' \<le> c \<and> c \<le> CHR ''9'') s
      then foldl (\<lambda>n c. 10 * n + digit_value c) 0 s else 0)"

definition spec_ExtractMajorMinor :: "string \<Rightarrow> int \<times> int" where
  "spec_ExtractMajorMinor v =
     (case component (TrimPrefix v ''v'') of
        (major, rest) \<Rightarrow> (decimal major, decimal (fst (component rest))))"

definition spec_ExtractMajor :: "string \<Rightarrow> int" where
  "spec_ExtractMajor v = fst (spec_ExtractMajorMinor v)"

definition spec_version :: "(string \<Rightarrow> string \<Rightarrow> int) \<Rightarrow> (string \<Rightarrow> string) \<Rightarrow> version_pkg" where
  "spec_version cmp norm =
     \<lparr>Compare = cmp, Normalize = norm,
      ExtractMajor = spec_ExtractMajor, ExtractMajorMinor = spec_ExtractMajorMinor\<rparr>"

text \<open>
  \<open>n\<close> calls of \<open>GetLatestVersion\<close> in a row with the same four arguments: the results
  in order and the client after the last call.
\<close>

fun GetLatestVersion_times :: "nat \<Rightarrow> nat \<Rightarrow> GitHubAPI \<Rightarrow> version_pkg \<Rightarrow> Client \<Rightarrow> string \<Rightarrow> string \<Rightarrow>
    string \<Rightarrow> string \<Rightarrow> ((string \<times> string \<times> error option) list \<times> Client) option" where
  "GetLatestVersion_times 0 fuel api ver c owner repo currentVersion versionPattern = Some ([], c)"
| "GetLatestVersion_times (Suc n) fuel api ver c owner repo currentVersion versionPattern =
     (case GetLatestVersion fuel api ver c owner repo currentVersion versionPattern of
        None \<Rightarrow> None
      | Some (res, c1) \<Rightarrow>
          (case GetLatestVersion_times n fuel api ver c1 owner repo currentVersion versionPattern of
             None \<Rightarrow> None
           | Some (rs, c2) \<Rightarrow> Some (res # rs, c2)))"

text \<open>Two keys that differ in exactly one of their four components.\<close>

definition one_component_changed :: "VersionKey \<Rightarrow> VersionKey \<Rightarrow> bool" where
  "one_component_changed k k' =
     (length (filter id
        [Owner k \<noteq> Owner k', Repo k \<noteq> Repo k', Ref k \<noteq> Ref k', Pattern k \<noteq> Pattern k']) = 1)"

text \<open>
  The remote ends the pagination within \<open>k\<close> pages, for a client that has sent \<open>n\<close>
  requests and asks for the given page next: some request among the next \<open>k\<close> fails or
  is answered with no next page.
\<close>

fun pages_end_within :: "nat \<Rightarrow> GitHubAPI \<Rightarrow> nat \<Rightarrow> string \<Rightarrow> string \<Rightarrow> int \<Rightarrow> bool" where
  "pages_end_within 0 api n owner repo page = False"
| "pages_end_within (Suc k) api n owner repo page =
     (case ListTags api n owner repo page of
        Inl err \<Rightarrow> True
      | Inr (tags, nextPage) \<Rightarrow>
          nextPage = 0 \<or> pages_end_within k api (n + 1) owner repo nextPage)"

section \<open>Package linter: issues\<close>

text \<open>
  Source: \<^verbatim>\<open>src/internal/linter/format_linter_test.go\<close>, the part that declares
  \<open>Issue\<close> and \<open>newIssue\<close>; \<open>Issue\<close> and \<open>Key\<close> are also in
  \<^verbatim>\<open>src/internal/linter/linter.go\<close>.
\<close>

record Issue =
  File :: string
  Line :: int
  Linter :: string
  Message :: string

text \<open>The verb \<open>%d\<close> of \<open>fmt.Sprintf\<close>: an integer in decimal.\<close>

function nat_to_string :: "nat \<Rightarrow> string" where
  "nat_to_string n =
     (if n < 10 then [char_of (48 + n)]
      else nat_to_string (n div 10) @ [char_of (48 + n mod 10)])"
  by pat_completeness auto
termination
  by (relation "measure id") auto

declare nat_to_string.simps [simp del]

definition Itoa :: "int \<Rightarrow> string" where
  "Itoa i = (if i < 0 then ''-'' @ nat_to_string (nat (- i)) else nat_to_string (nat i))"

text \<open>
  \<open>newIssue\<close> returns a pointer: \<open>None\<close> is nil. The field \<open>Linter\<close> is left at its
  zero value.
\<close>

definition newIssue :: "string \<Rightarrow> int \<Rightarrow> string \<Rightarrow> Issue option" where
  "newIssue file line message =
     (if message = [] then None
      else Some \<lparr>File = file, Line = line, Linter = [], Message = message\<rparr>)"

definition Key :: "Issue \<Rightarrow> string" where
  "Key i = File i @ '':'' @ Itoa (Line i) @ '':'' @ Linter i @ '':'' @ Message i"

section \<open>Package cmd: fixed and unfixed issues\<close>

text \<open>Source: \<^verbatim>\<open>src/internal/cmd/lint.go\<close>.\<close>

text \<open>
  \<open>remainingKeys\<close> is a Go \<open>map[string]bool\<close>; reading a key that is absent gives
  \<open>false\<close>. The second loop appends each original issue to one of the two results.
\<close>

definition remainingKeys_of :: "Issue list \<Rightarrow> (string \<rightharpoonup> bool)" where
  "remainingKeys_of remaining = fold (\<lambda>issue m. m(Key issue \<mapsto> True)) remaining Map.empty"

definition map_bool :: "(string \<rightharpoonup> bool) \<Rightarrow> string \<Rightarrow> bool" where
  "map_bool m k = (case m k of Some b \<Rightarrow> b | None \<Rightarrow> False)"

definition classifyIssues :: "Issue list \<Rightarrow> Issue list \<Rightarrow> Issue list \<times> Issue list" where
  "classifyIssues original remaining =
     (let remainingKeys = remainingKeys_of remaining
      in fold (\<lambda>issue (fixed, unfixed).
                 if map_bool remainingKeys (Key issue) then (fixed, unfixed @ [issue])
                 else (fixed @ [issue], unfixed))
           original ([], []))"

section \<open>Package workflow: the workflow\<close>

text \<open>Source: \<^verbatim>\<open>src/internal/workflow/workflow.go\<close>.\<close>

text \<open>
  The parsed summary of a workflow, as far as the checks below read it: its name and
  whether it has a \<open>permissions\<close> value.
\<close>

record Content =
  Name :: string
  Permissions :: bool

text \<open>
  A workflow: the path of its file (the field \<open>File\<close>, here \<open>wfFile\<close>, since an
  issue has a field \<open>File\<close> too), the parsed summary (\<open>None\<close> is nil), the raw bytes,
  and the cached syntax tree, kept as the bytes it was parsed from (\<open>None\<close> is nil).
\<close>

record Workflow =
  wfFile :: string
  Content :: "Content option"
  RawBytes :: string
  node :: "string option"

definition Lines :: "Workflow \<Rightarrow> string list" where
  "Lines w = Split_newline (RawBytes w)"

definition invalidateNode :: "Workflow \<Rightarrow> Workflow" where
  "invalidateNode w = w\<lparr>node := None\<rparr>"

section \<open>Package linter: the style linter's name checks\<close>

text \<open>
  Source: \<^verbatim>\<open>src/unnamed/part_007\<close>, the part that declares \<open>StyleLinter\<close>; the
  settings are in \<^verbatim>\<open>src/internal/config/style_settings.go\<close>.
\<close>

record StyleSettings =
  MinNameLength :: int
  MaxNameLength :: int
  NamingConvention :: string
  CheckoutFirst :: bool
  RequireStepNames :: bool
  MaxRunLines :: int

definition ctxWorkflow :: string where
  "ctxWorkflow = ''Workflow''"

text \<open>
  \<open>strings.Fields\<close>: the maximal runs of bytes between white-space runes. The first
  argument is the field read so far.
\<close>

function fields_from :: "string \<Rightarrow> string \<Rightarrow> string list" where
  "fields_from cur [] = (if cur = [] then [] else [cur])"
| "fields_from cur (c # cs) =
     (if space_width (c # cs) = 0 then fields_from (cur @ [c]) cs
      else (if cur = [] then [] else [cur]) @ fields_from [] (drop (space_width (c # cs)) (c # cs)))"
  by pat_completeness auto
termination
  by (relation "measure (\<lambda>(cur, s). length s)") auto

definition Fields :: "string \<Rightarrow> string list" where
  "Fields s = fields_from [] s"

text \<open>
  \<open>unicode.IsUpper(rune(b))\<close> for a byte \<open>b\<close>: the upper-case letters of Latin-1.
\<close>

definition IsUpper_byte :: "char \<Rightarrow> bool" where
  "IsUpper_byte b =
     (let n = (of_char b :: nat)
      in (65 \<le> n \<and> n \<le> 90) \<or> (192 \<le> n \<and> n \<le> 214) \<or> (216 \<le> n \<and> n \<le> 222))"

definition checkNameLength :: "StyleSettings \<Rightarrow> string \<Rightarrow> string \<Rightarrow> int \<Rightarrow> string \<Rightarrow> Issue option" where
  "checkNameLength settings name file line context =
     (let msg =
        (if MinNameLength settings > 0 \<and> int (length name) < MinNameLength settings
         then context @ '' name '' @ [CHR 0x27] @ name @ [CHR 0x27] @ '' is too short (min ''
              @ Itoa (MinNameLength settings) @ '' chars)''
         else if MaxNameLength settings > 0 \<and> int (length name) > MaxNameLength settings
         then context @ '' name exceeds maximum length of ''
              @ Itoa (MaxNameLength settings) @ '' characters''
         else [])
      in newIssue file line msg)"

text \<open>The loop of the \<open>title\<close> case: the message after the loop.\<close>

fun title_msg :: "string \<Rightarrow> string list \<Rightarrow> string" where
  "title_msg context [] = []"
| "title_msg context (word # rest) =
     (if length word > 0 \<and> \<not> IsUpper_byte (hd word)
      then context @ '' name should use Title Case''
      else title_msg context rest)"

definition checkNamingConvention :: "StyleSettings \<Rightarrow> string \<Rightarrow> string \<Rightarrow> int \<Rightarrow> string \<Rightarrow> Issue option" where
  "checkNamingConvention settings name file line context =
     (if NamingConvention settings = [] then None
      else let words = Fields name in
        if length words = 0 then None
        else
          let msg =
            (if NamingConvention settings = ''title'' then title_msg context words
             else if NamingConvention settings = ''sentence'' then
               (if length (hd words) > 0 \<and> \<not> IsUpper_byte (hd (hd words))
                then context @ '' name should start with uppercase (sentence case)''
                else [])
             else [])
          in newIssue file line msg)"

text \<open>
  A slice of issue pointers is a list of \<open>Issue option\<close>; \<open>append\<close> adds whatever
  pointer it is given, nil included.
\<close>

definition checkWorkflowName :: "StyleSettings \<Rightarrow> Workflow \<Rightarrow> string \<Rightarrow> Issue option list" where
  "checkWorkflowName settings w file =
     (case Content w of
        None \<Rightarrow> [newIssue file 1 ''Workflow is missing a name'']
      | Some content \<Rightarrow>
          if Name content = [] then [newIssue file 1 ''Workflow is missing a name'']
          else
            (let issues1 =
               (case checkNameLength settings (Name content) file 1 ctxWorkflow of
                  Some issue \<Rightarrow> [Some issue]
                | None \<Rightarrow> []);
                 issues2 =
               (case checkNamingConvention settings (Name content) file 1 ctxWorkflow of
                  Some issue \<Rightarrow> issues1 @ [Some issue]
                | None \<Rightarrow> issues1)
             in issues2))"

section \<open>Package config: which linters run\<close>

text \<open>
  Source: \<^verbatim>\<open>src/internal/config/config.go\<close> and
  \<^verbatim>\<open>src/internal/config/format_settings.go\<close>.
\<close>

text \<open>
  Of the configuration, the part that \<open>IsLinterEnabled\<close> reads. \<open>Linters = None\<close> is a
  nil pointer.
\<close>

record LinterConfig =
  Default :: string
  Enable :: "string list"
  Disable :: "string list"

record Config =
  Linters :: "LinterConfig option"

definition defaultLinterDefault :: string where
  "defaultLinterDefault = ''all''"

definition IsLinterEnabled :: "Config \<Rightarrow> string \<Rightarrow> bool" where
  "IsLinterEnabled c linterName =
     (case Linters c of
        None \<Rightarrow> True
      | Some lc \<Rightarrow>
          if linterName \<in> set (Disable lc) then False
          else if Default lc = defaultLinterDefault then True
          else linterName \<in> set (Enable lc))"

record FormatSettings =
  IndentWidth :: int
  MaxLineLength :: int

section \<open>Package linter: the orchestrator\<close>

text \<open>Source: \<^verbatim>\<open>src/internal/linter/linter.go\<close>.\<close>

text \<open>
  A linter, as \<open>Lint\<close> uses it: its \<open>LintWorkflow\<close>, which returns the issues and the
  error (\<open>None\<close> is nil). The linters of the repository build each issue they return
  anew and return no nil issue, so a slice of issues is a list of issue values.
\<close>

record Linter =
  LintWorkflow :: "Workflow \<Rightarrow> Issue list \<times> error option"

definition LinterVersions :: string where "LinterVersions = ''versions''"
definition LinterPermissions :: string where "LinterPermissions = ''permissions''"
definition LinterFormat :: string where "LinterFormat = ''format''"
definition LinterSecrets :: string where "LinterSecrets = ''secrets''"
definition LinterInjection :: string where "LinterInjection = ''injection''"

text \<open>
  What \<open>Lint\<close> and \<open>createLinters\<close> take from outside: the constructors of the five
  linters, \<open>getFormatSettings\<close> (not among the sources) and \<open>config.LoadConfig\<close>, which
  reads the file system.
\<close>

record linter_env =
  NewVersionsLinter :: Linter
  NewPermissionsLinter :: Linter
  NewFormatLinter :: "FormatSettings option \<Rightarrow> Linter"
  NewSecretsLinter :: Linter
  NewInjectionLinter :: Linter
  getFormatSettings :: "Config option \<Rightarrow> FormatSettings option"
  LoadConfig :: "string \<Rightarrow> error + Config"

text \<open>The map from linter name to linter is an association list with distinct names.\<close>

definition createLinters :: "linter_env \<Rightarrow> Config option \<Rightarrow> (string \<times> Linter) list" where
  "createLinters env cfg0 =
     (case cfg0 of
        None \<Rightarrow>
          (let formatSettings = getFormatSettings env cfg0
           in [(LinterVersions, NewVersionsLinter env),
               (LinterPermissions, NewPermissionsLinter env),
               (LinterFormat, NewFormatLinter env formatSettings),
               (LinterSecrets, NewSecretsLinter env),
               (LinterInjection, NewInjectionLinter env)])
      | Some c \<Rightarrow>
          (let formatSettings = getFormatSettings env cfg0
           in (if IsLinterEnabled c LinterVersions
               then [(LinterVersions, NewVersionsLinter env)] else [])
            @ (if IsLinterEnabled c LinterPermissions
               then [(LinterPermissions, NewPermissionsLinter env)] else [])
            @ (if IsLinterEnabled c LinterFormat
               then [(LinterFormat, NewFormatLinter env formatSettings)] else [])
            @ (if IsLinterEnabled c LinterSecrets
               then [(LinterSecrets, NewSecretsLinter env)] else [])
            @ (if IsLinterEnabled c LinterInjection
               then [(LinterInjection, NewInjectionLinter env)] else [])))"

record WorkflowLinter =
  workflows :: "Workflow list"
  configFile :: string
  cfg :: "Config option"
  linters :: "(string \<times> Linter) list"

text \<open>
  The inner loop of \<open>Lint\<close> over the linters, in the order the \<open>range\<close> statement
  visits the map, and the outer loop over the workflows. Go does not fix the order in
  which a map is visited: \<open>order k\<close> is the order of the \<open>k\<close>-th visit.
\<close>

fun lint_linters :: "Config \<Rightarrow> Workflow \<Rightarrow> (string \<times> Linter) list \<Rightarrow> Issue list \<Rightarrow> error + Issue list" where
  "lint_linters c w [] allIssues = Inr allIssues"
| "lint_linters c w ((name, linter) # rest) allIssues =
     (if \<not> IsLinterEnabled c name then lint_linters c w rest allIssues
      else case LintWorkflow linter w of
        (issues, Some err) \<Rightarrow>
          Inl (ErrorWrap (''linter '' @ name @ '' failed on '' @ wfFile w @ '': '') err)
      | (issues, None) \<Rightarrow>
          lint_linters c w rest (allIssues @ map (\<lambda>issue. issue\<lparr>Linter := name\<rparr>) issues))"

fun lint_workflows :: "Config \<Rightarrow> (nat \<Rightarrow> (string \<times> Linter) list \<Rightarrow> (string \<times> Linter) list) \<Rightarrow>
    (string \<times> Linter) list \<Rightarrow> nat \<Rightarrow> Workflow list \<Rightarrow> Issue list \<Rightarrow> error + Issue list" where
  "lint_workflows c order ls k [] allIssues = Inr allIssues"
| "lint_workflows c order ls k (w # ws) allIssues =
     (case lint_linters c w (order k ls) allIssues of
        Inl err \<Rightarrow> Inl err
      | Inr allIssues' \<Rightarrow> lint_workflows c order ls (Suc k) ws allIssues')"

text \<open>
  \<open>Lint\<close> returns the issues or the error (\<open>Inl\<close> is a nil slice with an error) and the
  orchestrator after the call, whose configuration and linters it may have loaded.
\<close>

definition Lint :: "linter_env \<Rightarrow> (nat \<Rightarrow> (string \<times> Linter) list \<Rightarrow> (string \<times> Linter) list) \<Rightarrow>
    WorkflowLinter \<Rightarrow> (error + Issue list) \<times> WorkflowLinter" where
  "Lint env order l =
     (case cfg l of
        None \<Rightarrow>
          (case LoadConfig env (configFile l) of
             Inl err \<Rightarrow> (Inl (ErrorWrap ''failed to load config: '' err), l)
           | Inr c \<Rightarrow>
               (let l' = l\<lparr>cfg := Some c, linters := createLinters env (Some c)\<rparr>
                in (lint_workflows c order (linters l') 0 (workflows l') [], l')))
      | Some c \<Rightarrow> (lint_workflows c order (linters l) 0 (workflows l) [], l))"

section \<open>Package workflow: rewriting an action reference\<close>

text \<open>Source: \<^verbatim>\<open>src/internal/workflow/workflow.go\<close>, \<open>UpdateActionUses\<close>.\<close>

text \<open>
  \<open>os.WriteFile\<close> is a parameter: from the file system, the path and the data it gives
  the error (\<open>None\<close> is nil) and the file system after the call.
\<close>

type_synonym 'fs write_file = "'fs \<Rightarrow> string \<Rightarrow> string \<Rightarrow> error option \<times> 'fs"

text \<open>The body of the loop of \<open>UpdateActionUses\<close> for a line that contains \<open>oldUses\<close>.\<close>

definition update_line :: "string \<Rightarrow> string \<Rightarrow> string \<Rightarrow> string \<Rightarrow> string" where
  "update_line oldUses newUses comment line =
     (let newLine = Replace1 line oldUses newUses;
          idx = Index newLine '' #'';
          newLine = (if idx \<noteq> -1 then take (nat idx) newLine else newLine);
          newLine = TrimRight newLine [CHR '' '', CHR 0x09];
          newLine = (if comment \<noteq> [] then newLine @ '' # '' @ comment else newLine)
      in newLine)"

text \<open>The loop: the lines after it and the flag \<open>updated\<close>.\<close>

fun update_loop :: "string \<Rightarrow> string \<Rightarrow> string \<Rightarrow> string list \<Rightarrow> bool \<Rightarrow> string list \<times> bool" where
  "update_loop oldUses newUses comment [] updated = ([], updated)"
| "update_loop oldUses newUses comment (line # rest) updated =
     (if Contains line oldUses
      then (case update_loop oldUses newUses comment rest True of
              (rest', u) \<Rightarrow> (update_line oldUses newUses comment line # rest', u))
      else (case update_loop oldUses newUses comment rest updated of
              (rest', u) \<Rightarrow> (line # rest', u)))"

text \<open>
  \<open>UpdateActionUses\<close> returns the error, the workflow after the call and the file system
  after the call.
\<close>

definition UpdateActionUses :: "'fs write_file \<Rightarrow> 'fs \<Rightarrow> Workflow \<Rightarrow> string \<Rightarrow> string \<Rightarrow> string \<Rightarrow>
    error option \<times> Workflow \<times> 'fs" where
  "UpdateActionUses writeFile fs w oldUses newUses comment =
     (case update_loop oldUses newUses comment (Split_newline (RawBytes w)) False of
        (lines, updated) \<Rightarrow>
          if \<not> updated then (Some (ErrorNew (''action '' @ oldUses @ '' not found'')), w, fs)
          else
            (let w' = invalidateNode (w\<lparr>RawBytes := Join_newline lines\<rparr>)
             in case writeFile fs (wfFile w') (RawBytes w') of
                  (err, fs') \<Rightarrow> (err, w', fs')))"

text \<open>
  Two notions of the specification: \<open>sub\<close> occurs in \<open>s\<close>, and \<open>body\<close> is \<open>s\<close>
  without the line comment that starts at its first \<open>" #"\<close>.
\<close>

definition occurs_in :: "string \<Rightarrow> string \<Rightarrow> bool" where
  "occurs_in sub s = (\<exists>pre post. s = pre @ sub @ post)"

definition comment_stripped :: "string \<Rightarrow> string \<Rightarrow> bool" where
  "comment_stripped s body =
     ((\<not> occurs_in '' #'' s \<and> body = s) \<or>
      (\<exists>rest. s = body @ '' #'' @ rest \<and> \<not> occurs_in '' #'' body))"

section \<open>Package linter: the format fixer\<close>

text \<open>
  Source: \<^verbatim>\<open>src/unnamed/part_013\<close>; \<open>IsBlankOrComment\<close> is in
  \<^verbatim>\<open>src/internal/stringutil/stringutil.go\<close>.
\<close>

definition countLeadingSpaces :: "string \<Rightarrow> int" where
  "countLeadingSpaces line = int (length line) - int (length (TrimLeft line '' ''))"

definition IsBlankOrComment :: "string \<Rightarrow> bool" where
  "IsBlankOrComment line =
     (let trimmed = TrimSpace line in trimmed = [] \<or> HasPrefix trimmed ''#'')"

text \<open>
  \<open>fixIndentation\<close>; the settings pointer may be nil. \<open>None\<close> is the panic of
  \<open>strings.Repeat\<close> on a negative count.
\<close>

definition fixIndentation :: "FormatSettings option \<Rightarrow> string \<Rightarrow> int \<Rightarrow> string option" where
  "fixIndentation settings line prevIndent =
     (case settings of
        None \<Rightarrow> Some line
      | Some s \<Rightarrow>
          if IndentWidth s \<le> 0 then Some line
          else if IsBlankOrComment line then Some line
          else
            let leadingSpaces = countLeadingSpaces line in
            if leadingSpaces \<le> prevIndent then Some line
            else
              let increase = leadingSpaces - prevIndent in
              if increase \<le> IndentWidth s then Some line
              else
                let correctIndent = prevIndent + IndentWidth s in
                (case Repeat '' '' correctIndent of
                   None \<Rightarrow> None
                 | Some spaces \<Rightarrow> Some (spaces @ TrimLeft line [CHR '' '', CHR 0x09])))"

text \<open>
  The loop of \<open>fixLines\<close> over the remaining lines, with the slice \<open>fixed\<close> built so far
  and the variables \<open>prevWasBlank\<close> and \<open>prevIndent\<close>.
\<close>

fun fixLines_loop :: "FormatSettings option \<Rightarrow> string list \<Rightarrow> string list \<Rightarrow> bool \<Rightarrow> int \<Rightarrow>
    string list option" where
  "fixLines_loop settings [] fixed prevWasBlank prevIndent = Some fixed"
| "fixLines_loop settings (line0 # rest) fixed prevWasBlank prevIndent =
     (case fixIndentation settings (TrimRight line0 [CHR '' '', CHR 0x09]) prevIndent of
        None \<Rightarrow> None
      | Some line \<Rightarrow>
          if TrimSpace line = []
          then fixLines_loop settings rest
                 (if \<not> prevWasBlank then fixed @ [line] else fixed) True prevIndent
          else fixLines_loop settings rest (fixed @ [line]) False (countLeadingSpaces line))"

definition fixLines :: "FormatSettings option \<Rightarrow> string list \<Rightarrow> string list option" where
  "fixLines settings lines = fixLines_loop settings lines [] False 0"

text \<open>The loop of \<open>fixWorkflow\<close> that removes the trailing empty lines.\<close>

function removeTrailingEmpty :: "string list \<Rightarrow> string list" where
  "removeTrailingEmpty fixed =
     (if length fixed > 0 \<and> TrimSpace (last fixed) = []
      then removeTrailingEmpty (butlast fixed) else fixed)"
  by pat_completeness auto
termination
  by (relation "measure length") auto

declare removeTrailingEmpty.simps [simp del]

text \<open>
  \<open>fixWorkflow\<close> returns the error of writing the file, the workflow after the call and
  the file system after the call; \<open>None\<close> when it panics.
\<close>

definition fixWorkflow :: "'fs write_file \<Rightarrow> FormatSettings option \<Rightarrow> 'fs \<Rightarrow> Workflow \<Rightarrow>
    (error option \<times> Workflow \<times> 'fs) option" where
  "fixWorkflow writeFile settings fs w =
     (case fixLines settings (Lines w) of
        None \<Rightarrow> None
      | Some fixed0 \<Rightarrow>
          (let fixed = removeTrailingEmpty fixed0;
               content = Join_newline fixed @ [CHR 0x0A];
               w' = w\<lparr>RawBytes := content\<rparr>
           in case writeFile fs (wfFile w') (RawBytes w') of
                (err, fs') \<Rightarrow> Some (err, w', fs')))"

section \<open>Package linter: the format linter's checks\<close>

text \<open>
  Source: \<^verbatim>\<open>src/unnamed/part_013\<close>. \<open>Base\<close> is \<open>filepath.Base\<close> on a path whose
  separator is the slash: the last element of the path, after the trailing slashes are
  removed.
\<close>

definition HasSuffix :: "string \<Rightarrow> string \<Rightarrow> bool" where
  "HasSuffix s suffix =
     (length suffix \<le> length s \<and> drop (length s - length suffix) s = suffix)"

definition Base :: "string \<Rightarrow> string" where
  "Base path =
     (if path = [] then ''.''
      else
        let stripped = rev (dropWhile (\<lambda>c. c = CHR ''/'') (rev path));
            element = rev (takeWhile (\<lambda>c. c \<noteq> CHR ''/'') (rev stripped))
        in if element = [] then ''/'' else element)"

definition BaseName :: "Workflow \<Rightarrow> string" where
  "BaseName w = Base (wfFile w)"

definition hasTrailingWhitespace :: "string \<Rightarrow> bool" where
  "hasTrailingWhitespace line = (HasSuffix line '' '' \<or> HasSuffix line [CHR 0x09])"

definition checkLineLength :: "FormatSettings option \<Rightarrow> string \<Rightarrow> string \<Rightarrow> int \<Rightarrow> Issue option" where
  "checkLineLength settings line file lineNum =
     (case settings of
        None \<Rightarrow> None
      | Some s \<Rightarrow>
          if MaxLineLength s \<le> 0 then None
          else if int (length line) > MaxLineLength s
          then Some \<lparr>File = file, Line = lineNum, Linter = [],
                      Message = ''Line exceeds maximum length of '' @ Itoa (MaxLineLength s)
                                @ '' characters (found '' @ Itoa (int (length line)) @ '')''\<rparr>
          else None)"

text \<open>
  \<open>checkIndentation\<close>. The remainder \<open>leadingSpaces % IndentWidth\<close> is taken where both
  numbers are positive, where Go's \<open>%\<close> is \<open>mod\<close>.
\<close>

definition checkIndentation :: "FormatSettings option \<Rightarrow> string \<Rightarrow> string \<Rightarrow> int \<Rightarrow> int \<Rightarrow> int \<Rightarrow> int \<Rightarrow>
    Issue option" where
  "checkIndentation settings line file lineNum leadingSpaces minIndent prevIndent =
     (case settings of
        None \<Rightarrow> None
      | Some s \<Rightarrow>
          if IndentWidth s \<le> 0 then None
          else if HasPrefix line [CHR 0x09]
          then Some \<lparr>File = file, Line = lineNum, Linter = [],
                      Message = ''Line uses tabs for indentation, expected ''
                                @ Itoa (IndentWidth s) @ '' spaces''\<rparr>
          else if leadingSpaces > 0 \<and> leadingSpaces mod IndentWidth s \<noteq> 0
          then Some \<lparr>File = file, Line = lineNum, Linter = [],
                      Message = ''Line indentation is '' @ Itoa leadingSpaces
                                @ '' spaces, expected multiple of '' @ Itoa (IndentWidth s)\<rparr>
          else if minIndent > 0 \<and> minIndent \<noteq> IndentWidth s \<and> leadingSpaces = minIndent
          then Some \<lparr>File = file, Line = lineNum, Linter = [],
                      Message = ''Line uses '' @ Itoa leadingSpaces
                                @ '' spaces for base indentation, expected ''
                                @ Itoa (IndentWidth s) @ '' spaces''\<rparr>
          else if leadingSpaces > prevIndent \<and> leadingSpaces - prevIndent \<noteq> IndentWidth s
          then Some \<lparr>File = file, Line = lineNum, Linter = [],
                      Message = ''Line indentation increased by ''
                                @ Itoa (leadingSpaces - prevIndent)
                                @ '' spaces, expected increase of '' @ Itoa (IndentWidth s)
                                @ '' (should be '' @ Itoa (prevIndent + IndentWidth s)
                                @ '' spaces)''\<rparr>
          else None)"

definition findMinIndentation :: "string list \<Rightarrow> int" where
  "findMinIndentation lines =
     fold (\<lambda>line minIndent.
             if IsBlankOrComment line then minIndent
             else
               let spaces = countLeadingSpaces line in
               if spaces > 0 \<and> (minIndent = -1 \<or> spaces < minIndent) then spaces
               else minIndent)
       lines (-1)"

text \<open>
  The loop of \<open>lintWorkflow\<close> over the remaining lines, with the number of the line, the
  issues found so far and the variables \<open>prevIndent\<close> and \<open>prevWasBlank\<close>.
\<close>

fun lintWorkflow_loop :: "FormatSettings option \<Rightarrow> string \<Rightarrow> int \<Rightarrow> string list \<Rightarrow> int \<Rightarrow>
    Issue list \<Rightarrow> int \<Rightarrow> bool \<Rightarrow> Issue list" where
  "lintWorkflow_loop settings file minIndent [] lineNum issues prevIndent prevWasBlank = issues"
| "lintWorkflow_loop settings file minIndent (line # rest) lineNum issues prevIndent prevWasBlank =
     (let trimmed = TrimSpace line;
          isBlank = (trimmed = []);
          isComment = HasPrefix trimmed ''#'';
          leadingSpaces = countLeadingSpaces line;
          issues1 = (if isBlank \<and> prevWasBlank
                     then issues @ [\<lparr>File = file, Line = lineNum, Linter = [],
                                      Message = ''Multiple consecutive blank lines found''\<rparr>]
                     else issues);
          issues2 = (if hasTrailingWhitespace line
                     then issues1 @ [\<lparr>File = file, Line = lineNum, Linter = [],
                                       Message = ''Line has trailing whitespace''\<rparr>]
                     else issues1);
          issues3 = (case checkLineLength settings line file lineNum of
                       Some issue \<Rightarrow> issues2 @ [issue]
                     | None \<Rightarrow> issues2)
      in if \<not> isBlank \<and> \<not> isComment
         then lintWorkflow_loop settings file minIndent rest (lineNum + 1)
                (case checkIndentation settings line file lineNum leadingSpaces minIndent
                        prevIndent of
                   Some issue \<Rightarrow> issues3 @ [issue]
                 | None \<Rightarrow> issues3)
                leadingSpaces isBlank
         else lintWorkflow_loop settings file minIndent rest (lineNum + 1) issues3
                prevIndent isBlank)"

definition lintWorkflow :: "FormatSettings option \<Rightarrow> Workflow \<Rightarrow> Issue list" where
  "lintWorkflow settings w =
     (let file = Base (wfFile w);
          lines = Lines w;
          minIndent = findMinIndentation lines
      in lintWorkflow_loop settings file minIndent lines 1 [] 0 False)"

text \<open>The format linter as the orchestrator sees it: \<open>LintWorkflow\<close> returns no error.\<close>

definition NewFormatLinter_of :: "FormatSettings option \<Rightarrow> Linter" where
  "NewFormatLinter_of settings = \<lparr>LintWorkflow = (\<lambda>w. (lintWorkflow settings w, None))\<rparr>"

section \<open>Package linter: the injection linter\<close>

text \<open>Source: \<^verbatim>\<open>src/internal/linter/injection_linter.go\<close>.\<close>

definition dangerousContexts :: "string list" where
  "dangerousContexts =
     [''github.event.issue.title'',
      ''github.event.issue.body'',
      ''github.event.pull_request.title'',
      ''github.event.pull_request.body'',
      ''github.event.pull_request.head.ref'',
      ''github.event.pull_request.head.label'',
      ''github.event.pull_request.head.repo.default_branch'',
      ''github.event.comment.body'',
      ''github.event.review.body'',
      ''github.event.review_comment.body'',
      ''github.event.discussion.title'',
      ''github.event.discussion.body'',
      ''github.event.head_commit.message'',
      ''github.event.head_commit.author.name'',
      ''github.event.head_commit.author.email'',
      ''github.event.commits[*].message'',
      ''github.event.commits[*].author.name'',
      ''github.event.commits[*].author.email'',
      ''github.head_ref'',
      ''github.event.pages[*].source.path'',
      ''github.event.*.author.name'',
      ''github.event.*.author.email'']"

definition stepConfigKeys :: "string list" where
  "stepConfigKeys =
     [''env:'', ''name:'', ''with:'', ''if:'', ''id:'', ''uses:'',
      ''continue-on-error:'', ''timeout-minutes:'', ''working-directory:'',
      ''shell:'']"

text \<open>
  The regular expressions of \<open>initPatterns\<close>. \<open>regexp.QuoteMeta\<close> makes every character of
  a context literal, and the replacement turns each \<open>*\<close> of the context into the class
  \<open>[^}]+\<close>; around it stand the literal \<open>${{\<close>, \<open>\s*\<close>, \<open>\s*\<close> and the literal \<open>}}\<close>.
  A compiled pattern is a list of items: a literal byte, one byte other than \<open>}\<close>, and
  the greedy repetitions \<open>\s*\<close> and \<open>[^}]*\<close> (\<open>[^}]+\<close> is \<open>[^}]\<close> followed by \<open>[^}]*\<close>). The
  class \<open>\s\<close> of package \<open>regexp\<close> is tab, line feed, form feed, carriage return and
  space.
\<close>

datatype re_item = Lit char | NotBrace | SpaceStar | NotBraceStar

definition re_space :: "char \<Rightarrow> bool" where
  "re_space c = (c \<in> {CHR 0x09, CHR 0x0A, CHR 0x0C, CHR 0x0D, CHR 0x20})"

definition compile_context :: "string \<Rightarrow> re_item list" where
  "compile_context ctx =
     map Lit ''${{'' @ [SpaceStar]
     @ concat (map (\<lambda>c. if c = CHR ''*'' then [NotBrace, NotBraceStar] else [Lit c]) ctx)
     @ [SpaceStar] @ map Lit ''}}''"

definition dangerousPatterns :: "re_item list list" where
  "dangerousPatterns = map compile_context dangerousContexts"

text \<open>
  \<open>re_match p s\<close> is the length of the match of \<open>p\<close> that starts at the beginning of \<open>s\<close>,
  the one package \<open>regexp\<close> prefers: a repetition takes as many bytes as the rest of the
  pattern allows. \<open>FindString p s\<close> is the leftmost match, \<open>matches[0]\<close> of
  \<open>FindStringSubmatch\<close>; \<open>None\<close> is no match.
\<close>

fun re_match :: "re_item list \<Rightarrow> string \<Rightarrow> nat option" where
  "re_match [] s = Some 0"
| "re_match (Lit c # r) [] = None"
| "re_match (Lit c # r) (x # xs) =
     (if x = c then map_option Suc (re_match r xs) else None)"
| "re_match (NotBrace # r) [] = None"
| "re_match (NotBrace # r) (x # xs) =
     (if x \<noteq> CHR ''}'' then map_option Suc (re_match r xs) else None)"
| "re_match (SpaceStar # r) [] = re_match r []"
| "re_match (SpaceStar # r) (x # xs) =
     (if re_space x
      then (case re_match (SpaceStar # r) xs of
              Some n \<Rightarrow> Some (Suc n)
            | None \<Rightarrow> re_match r (x # xs))
      else re_match r (x # xs))"
| "re_match (NotBraceStar # r) [] = re_match r []"
| "re_match (NotBraceStar # r) (x # xs) =
     (if x \<noteq> CHR ''}''
      then (case re_match (NotBraceStar # r) xs of
              Some n \<Rightarrow> Some (Suc n)
            | None \<Rightarrow> re_match r (x # xs))
      else re_match r (x # xs))"

fun FindString :: "re_item list \<Rightarrow> string \<Rightarrow> string option" where
  "FindString p [] = (case re_match p [] of Some n \<Rightarrow> Some [] | None \<Rightarrow> None)"
| "FindString p (x # xs) =
     (case re_match p (x # xs) of
        Some n \<Rightarrow> Some (take n (x # xs))
      | None \<Rightarrow> FindString p xs)"

text \<open>The state of the scan: \<open>lineContext\<close>.\<close>

record lineContext =
  inRunBlock :: bool
  inEnvBlock :: bool
  runBlockIndent :: int
  envBlockIndent :: int

definition isStepBoundary :: "string \<Rightarrow> bool" where
  "isStepBoundary trimmed =
     (HasPrefix trimmed ''- name:'' \<or> HasPrefix trimmed ''- uses:'' \<or>
      HasPrefix trimmed ''- run:'' \<or> HasPrefix trimmed ''- if:'' \<or>
      HasPrefix trimmed ''- id:'')"

definition isStepConfigKey :: "string \<Rightarrow> bool" where
  "isStepConfigKey trimmed = list_ex (\<lambda>key. HasPrefix trimmed key) stepConfigKeys"

definition isRunCommand :: "string \<Rightarrow> bool" where
  "isRunCommand trimmed =
     (if HasPrefix trimmed ''run:'' \<or> HasPrefix trimmed ''run :'' then True
      else if HasPrefix trimmed ''- run:'' \<or> HasPrefix trimmed ''- run :'' then True
      else False)"

definition isBlockScalarIndicator :: "string \<Rightarrow> bool" where
  "isBlockScalarIndicator content =
     (content \<in> {''|'', ''|-'', ''|+'', ''>'', ''>-'', ''>+''})"

definition extractRunContent :: "string \<Rightarrow> string" where
  "extractRunContent line =
     (let idx0 = Index line ''run:'';
          idx = (if idx0 = -1 then Index line ''run :'' else idx0);
          offset = (if idx0 = -1 then 5 else 4)
      in if idx = -1 then []
         else
           let content = TrimSpace (drop (nat (idx + offset)) line)
           in if isBlockScalarIndicator content then [] else content)"

text \<open>The first pattern of the list that matches the line, and its match.\<close>

fun first_match :: "re_item list list \<Rightarrow> string \<Rightarrow> string option" where
  "first_match [] line = None"
| "first_match (pattern # rest) line =
     (case FindString pattern line of
        Some expr \<Rightarrow> Some expr
      | None \<Rightarrow> first_match rest line)"

definition checkForInjection :: "string \<Rightarrow> int \<Rightarrow> string \<Rightarrow> Issue option" where
  "checkForInjection file lineNum line =
     (if \<not> Contains line ''${{'' then None
      else case first_match dangerousPatterns line of
        Some expr \<Rightarrow>
          newIssue file lineNum
            (''Potential shell injection: '' @ expr
             @ '' in run command. Use an environment variable instead'')
      | None \<Rightarrow> None)"

definition updateContext :: "string \<Rightarrow> int \<Rightarrow> lineContext \<Rightarrow> lineContext" where
  "updateContext trimmed currentIndent ctx =
     (let ctx1 = (if inEnvBlock ctx \<and> currentIndent \<le> envBlockIndent ctx
                  then ctx\<lparr>inEnvBlock := False\<rparr> else ctx)
      in if HasPrefix trimmed ''env:''
         then ctx1\<lparr>inEnvBlock := True, envBlockIndent := currentIndent\<rparr>
         else if inRunBlock ctx1 \<and> currentIndent \<le> runBlockIndent ctx1 \<and> isStepBoundary trimmed
         then ctx1\<lparr>inRunBlock := False, inEnvBlock := False\<rparr>
         else ctx1)"

text \<open>\<open>processLine\<close> returns the issue (\<open>None\<close> is nil) and the context after the line.\<close>

definition processLine :: "string \<Rightarrow> int \<Rightarrow> string \<Rightarrow> lineContext \<Rightarrow> Issue option \<times> lineContext" where
  "processLine file lineNum line ctx =
     (let trimmed = TrimSpace line
      in if IsBlankOrComment line then (None, ctx)
         else
           let currentIndent = countLeadingSpaces line;
               ctx1 = updateContext trimmed currentIndent ctx
           in if isRunCommand trimmed
              then
                (let ctx2 = ctx1\<lparr>inRunBlock := True, inEnvBlock := False,
                                  runBlockIndent := currentIndent\<rparr>;
                     runContent = extractRunContent trimmed
                 in if runContent \<noteq> []
                    then (checkForInjection file lineNum runContent, ctx2)
                    else (None, ctx2))
              else if inRunBlock ctx1 \<and> \<not> inEnvBlock ctx1 \<and> \<not> isStepConfigKey trimmed
              then (checkForInjection file lineNum line, ctx1)
              else (None, ctx1))"

text \<open>The loop of \<open>LintWorkflow\<close> over the remaining lines.\<close>

fun injection_loop :: "string \<Rightarrow> string list \<Rightarrow> int \<Rightarrow> lineContext \<Rightarrow> Issue list \<Rightarrow> Issue list" where
  "injection_loop file [] lineNum ctx issues = issues"
| "injection_loop file (line # rest) lineNum ctx issues =
     (case processLine file lineNum line ctx of
        (Some issue, ctx') \<Rightarrow> injection_loop file rest (lineNum + 1) ctx' (issues @ [issue])
      | (None, ctx') \<Rightarrow> injection_loop file rest (lineNum + 1) ctx' issues)"

definition InjectionLinter_LintWorkflow :: "Workflow \<Rightarrow> Issue list \<times> error option" where
  "InjectionLinter_LintWorkflow w =
     (let file = BaseName w;
          lines = Lines w;
          ctx = \<lparr>inRunBlock = False, inEnvBlock = False, runBlockIndent = 0,
                 envBlockIndent = 0\<rparr>
      in (injection_loop file lines 1 ctx [], None))"

definition NewInjectionLinter_of :: Linter where
  "NewInjectionLinter_of = \<lparr>LintWorkflow = InjectionLinter_LintWorkflow\<rparr>"

section \<open>Concrete inputs\<close>

text \<open>
  A remote with one repository, \<open>actions/checkout\<close>, whose three tags come on one page,
  and a version package that compares by major and minor version.
\<close>

definition example_api :: GitHubAPI where
  "example_api =
     \<lparr>ListTags = (\<lambda>n owner repo page.
        if owner = ''actions'' \<and> repo = ''checkout'' \<and> page = 0
        then Inr ([\<lparr>GetName = ''v3.5.0'', GetCommitSHA = ''aaa111''\<rparr>,
                   \<lparr>GetName = ''v3.6.0'', GetCommitSHA = ''bbb222''\<rparr>,
                   \<lparr>GetName = ''v4.1.0'', GetCommitSHA = ''ccc333''\<rparr>], 0)
        else Inl (ErrorNew ''404 Not Found'')),
      GetRef = (\<lambda>n owner repo ref. Inl (ErrorNew ''404 Not Found''))\<rparr>"

definition example_Compare :: "string \<Rightarrow> string \<Rightarrow> int" where
  "example_Compare a b =
     (case (spec_ExtractMajorMinor a, spec_ExtractMajorMinor b) of
        ((x, y), (x', y')) \<Rightarrow>
          if x < x' \<or> (x = x' \<and> y < y') then -1
          else if x = x' \<and> y = y' then 0 else 1)"

definition example_version :: version_pkg where
  "example_version = spec_version example_Compare (\<lambda>s. TrimPrefix s ''v'')"

text \<open>
  Style settings, two linters (one reports an issue on every workflow, one fails on
  every workflow) and an orchestrator over one workflow.
\<close>

definition example_style :: StyleSettings where
  "example_style =
     \<lparr>MinNameLength = 3, MaxNameLength = 50, NamingConvention = ''title'',
      CheckoutFirst = True, RequireStepNames = False, MaxRunLines = 0\<rparr>"

definition example_workflow :: Workflow where
  "example_workflow =
     \<lparr>wfFile = ''.github/workflows/ci.yml'',
      Content = Some \<lparr>Name = ''CI Build'', Permissions = False\<rparr>,
      RawBytes = ''name: CI Build'' @ [CHR 0x0A],
      node = None\<rparr>"

definition reporting_linter :: Linter where
  "reporting_linter =
     \<lparr>LintWorkflow = (\<lambda>w.
        ([\<lparr>File = ''ci.yml'', Line = 0, Linter = [],
           Message = ''Workflow is missing permissions configuration''\<rparr>], None))\<rparr>"

definition failing_linter :: Linter where
  "failing_linter =
     \<lparr>LintWorkflow = (\<lambda>w. ([], Some (ErrorNew ''failed to find actions'')))\<rparr>"

definition example_config :: Config where
  "example_config = \<lparr>Linters = Some \<lparr>Default = ''all'', Enable = [], Disable = []\<rparr>\<rparr>"

definition example_env :: linter_env where
  "example_env =
     \<lparr>NewVersionsLinter = failing_linter, NewPermissionsLinter = reporting_linter,
      NewFormatLinter = (\<lambda>s. reporting_linter), NewSecretsLinter = reporting_linter,
      NewInjectionLinter = reporting_linter, getFormatSettings = (\<lambda>c. None),
      LoadConfig = (\<lambda>f. Inr example_config)\<rparr>"

definition failing_orchestrator :: WorkflowLinter where
  "failing_orchestrator =
     \<lparr>workflows = [example_workflow], configFile = [], cfg = Some example_config,
      linters = [(LinterPermissions, reporting_linter), (LinterVersions, failing_linter)]\<rparr>"

definition passing_orchestrator :: WorkflowLinter where
  "passing_orchestrator =
     \<lparr>workflows = [example_workflow], configFile = [], cfg = Some example_config,
      linters = [(LinterPermissions, reporting_linter)]\<rparr>"

text \<open>A file system that keeps what is written: a map from paths to contents.\<close>

definition write_to_map :: "(string \<rightharpoonup> string) write_file" where
  "write_to_map fs path data = (None, fs(path \<mapsto> data))"

definition steps_workflow :: Workflow where
  "steps_workflow =
     \<lparr>wfFile = ''ci.yml'', Content = None,
      RawBytes = ''steps:'' @ [CHR 0x0A] @ ''  - uses: actions/checkout@v3  # pin me''
                 @ [CHR 0x0A] @ ''  - run: make'',
      node = None\<rparr>"

text \<open>
  A workflows directory with two files and a configuration file that enables the format
  linter and the injection linter only. The first file, \<^verbatim>\<open>ci.yml\<close>, has two blank lines
  in a row before \<open>jobs:\<close> and, on line 12, a line of a \<open>run\<close> block with an expression
  that the pattern of \<open>github.event.*.author.name\<close> matches from the first \<open>${{\<close> to
  the \<open>}}\<close>. The name of the second file starts with \<^verbatim>\<open>ci.yml:12:injection:\<close>, goes on
  with the beginning of the message for that line and ends with \<^verbatim>\<open>.yml\<close>, so
  \<open>LoadWorkflows\<close> loads it; its \<open>run\<close> command is on line 8. The contents are those that
  \<open>LoadWorkflow\<close> reads; \<open>filepath.Join\<close> puts the directory before the name.
\<close>

definition collision_settings :: FormatSettings where
  "collision_settings = \<lparr>IndentWidth = 2, MaxLineLength = 120\<rparr>"

definition collision_config :: Config where
  "collision_config =
     \<lparr>Linters = Some \<lparr>Default = ''none'', Enable = [''format'', ''injection''],
                       Disable = []\<rparr>\<rparr>"

definition collision_env :: linter_env where
  "collision_env =
     \<lparr>NewVersionsLinter = failing_linter, NewPermissionsLinter = failing_linter,
      NewFormatLinter = NewFormatLinter_of, NewSecretsLinter = failing_linter,
      NewInjectionLinter = NewInjectionLinter_of,
      getFormatSettings = (\<lambda>c. Some collision_settings),
      LoadConfig = (\<lambda>f. Inr collision_config)\<rparr>"

definition collision_ci_bytes :: string where
  "collision_ci_bytes =
     ''name: Build'' @ [CHR 0x0A]
     @ ''on: push'' @ [CHR 0x0A]
     @ ''permissions: read-all'' @ [CHR 0x0A]
     @ [CHR 0x0A]
     @ [CHR 0x0A]
     @ ''jobs:'' @ [CHR 0x0A]
     @ ''  build:'' @ [CHR 0x0A]
     @ ''    runs-on: ubuntu-latest'' @ [CHR 0x0A]
     @ ''    steps:'' @ [CHR 0x0A]
     @ ''      - name: Say'' @ [CHR 0x0A]
     @ ''        run: |'' @ [CHR 0x0A]
     @ ''          echo ${{ github.event.yml:8:injection:Potential shell injection: ${{ github.event.x.author.name }}''
     @ [CHR 0x0A]"

definition collision_ci_fixed_bytes :: string where
  "collision_ci_fixed_bytes =
     ''name: Build'' @ [CHR 0x0A]
     @ ''on: push'' @ [CHR 0x0A]
     @ ''permissions: read-all'' @ [CHR 0x0A]
     @ [CHR 0x0A]
     @ ''jobs:'' @ [CHR 0x0A]
     @ ''  build:'' @ [CHR 0x0A]
     @ ''    runs-on: ubuntu-latest'' @ [CHR 0x0A]
     @ ''    steps:'' @ [CHR 0x0A]
     @ ''      - name: Say'' @ [CHR 0x0A]
     @ ''        run: |'' @ [CHR 0x0A]
     @ ''          echo ${{ github.event.yml:8:injection:Potential shell injection: ${{ github.event.x.author.name }}''
     @ [CHR 0x0A]"

definition collision_greet_bytes :: string where
  "collision_greet_bytes =
     ''name: Greet'' @ [CHR 0x0A]
     @ ''on: push'' @ [CHR 0x0A]
     @ ''permissions: read-all'' @ [CHR 0x0A]
     @ ''jobs:'' @ [CHR 0x0A]
     @ ''  greet:'' @ [CHR 0x0A]
     @ ''    runs-on: ubuntu-latest'' @ [CHR 0x0A]
     @ ''    steps:'' @ [CHR 0x0A]
     @ ''      - run: echo ${{ github.event.x.author.name }}'' @ [CHR 0x0A]"

definition collision_greet_name :: string where
  "collision_greet_name = ''ci.yml:12:injection:Potential shell injection: ${{ github.event.yml''"

definition collision_ci :: Workflow where
  "collision_ci =
     \<lparr>wfFile = ''.github/workflows/ci.yml'',
      Content = Some \<lparr>Name = ''Build'', Permissions = True\<rparr>,
      RawBytes = collision_ci_bytes, node = None\<rparr>"

definition collision_greet :: Workflow where
  "collision_greet =
     \<lparr>wfFile = ''.github/workflows/'' @ collision_greet_name,
      Content = Some \<lparr>Name = ''Greet'', Permissions = True\<rparr>,
      RawBytes = collision_greet_bytes, node = None\<rparr>"

text \<open>
  The first workflow after the fix: one of the two blank lines is gone, and the line of
  the \<open>run\<close> block is line 11.
\<close>

definition collision_ci_fixed :: Workflow where
  "collision_ci_fixed = collision_ci\<lparr>RawBytes := collision_ci_fixed_bytes\<rparr>"

text \<open>
  The orchestrator that \<open>NewWithWorkflows\<close> builds over the given workflows, and the file
  system before the fix.
\<close>

definition collision_orchestrator :: "Workflow list \<Rightarrow> WorkflowLinter" where
  "collision_orchestrator ws =
     \<lparr>workflows = ws, configFile = ''.github-ci.yaml'', cfg = Some collision_config,
      linters = createLinters collision_env (Some collision_config)\<rparr>"

definition collision_fs :: "string \<rightharpoonup> string" where
  "collision_fs =
     [wfFile collision_ci \<mapsto> collision_ci_bytes,
      wfFile collision_greet \<mapsto> collision_greet_bytes]"

text \<open>The issues of the two passes, as \<open>Lint\<close> returns them.\<close>

definition collision_blank_issue :: Issue where
  "collision_blank_issue =
     \<lparr>File = ''ci.yml'', Line = 5, Linter = ''format'',
      Message = ''Multiple consecutive blank lines found''\<rparr>"

definition collision_ci_message :: string where
  "collision_ci_message =
     ''Potential shell injection: ${{ github.event.yml:8:injection:Potential shell injection: ${{ github.event.x.author.name }} in run command. Use an environment variable instead''"

definition collision_greet_message :: string where
  "collision_greet_message =
     ''Potential shell injection: ${{ github.event.x.author.name }} in run command. Use an environment variable instead''"

definition collision_ci_issue :: "int \<Rightarrow> Issue" where
  "collision_ci_issue line =
     \<lparr>File = ''ci.yml'', Line = line, Linter = ''injection'', Message = collision_ci_message\<rparr>"

definition collision_greet_issue :: Issue where
  "collision_greet_issue =
     \<lparr>File = collision_greet_name, Line = 8, Linter = ''injection'',
      Message = collision_greet_message\<rparr>"

definition collision_pass1 :: "Issue list" where
  "collision_pass1 = [collision_blank_issue, collision_ci_issue 12, collision_greet_issue]"

definition collision_pass2 :: "Issue list" where
  "collision_pass2 = [collision_ci_issue 11, collision_greet_issue]"

section \<open>Cache: Clear and Stats\<close>

lemma String_unconstrained: "String (NewUnconstrainedKey owner repo) = owner @ ''/'' @ repo"
  by (simp add: String_def IsConstrained_def NewUnconstrainedKey_def)

lemma String_constrained_pattern:
  "pattern \<noteq> [] \<Longrightarrow>
   String (NewConstrainedKey owner repo ref pattern) =
     owner @ ''/'' @ repo @ '':'' @ ref @ '':'' @ pattern"
  by (simp add: String_def IsConstrained_def NewConstrainedKey_def)

lemma String_IsConstrained:
  "IsConstrained k \<Longrightarrow>
   String k = Owner k @ ''/'' @ Repo k @ '':'' @ Ref k @ '':'' @ Pattern k"
  by (simp add: String_def)

text \<open>
  C10. \<open>Clear\<close> gives back the initial cache: the statistics read zero hits and zero
  misses, and every constrained or unconstrained lookup, for any key, finds nothing and
  leaves the cleared cache as it is; a lookup finds something again only after a store.
\<close>

theorem Clear_restores_initial:
  "Clear c = NewCache
   \<and> Stats (Clear c) = \<lparr>Hits = 0, Misses = 0\<rparr>
   \<and> GetConstrained (Clear c) k = ((VersionResult_zero, False), Clear c)
   \<and> GetUnconstrained (Clear c) k = ((VersionResult_zero, False), Clear c)
   \<and> fst (GetConstrained (SetConstrained (Clear c) k r) k) = (r, True)
   \<and> fst (GetUnconstrained (SetUnconstrained (Clear c) k r) k) = (r, True)"
  by (simp add: Clear_def NewCache_def Stats_def GetConstrained_def GetUnconstrained_def
      SetConstrained_def SetUnconstrained_def)

section \<open>Cache: constrained and unconstrained results stay apart\<close>


lemma String_unc_neq_con:
  "IsConstrained k \<Longrightarrow> Owner k = owner \<Longrightarrow> Repo k = repo \<Longrightarrow>
   String k \<noteq> String (NewUnconstrainedKey owner repo)"
  by (simp add: String_IsConstrained String_unconstrained)

lemma fold_drop_unconstrained_stores:
  assumes s: "s \<noteq> String (NewUnconstrainedKey owner repo)"
  shows "constrained c1 s = constrained c2 s \<Longrightarrow>
    constrained (fold apply_cache_op ops c1) s =
    constrained (fold apply_cache_op
       (filter (\<lambda>op. \<not> stores_under_unconstrained owner repo op) ops) c2) s"
proof (induction ops arbitrary: c1 c2)
  case Nil
  then show ?case by simp
next
  case (Cons op ops)
  have step_same: "constrained (apply_cache_op op c1) s = constrained (apply_cache_op op c2) s"
    using Cons.prems
    by (cases op) (auto simp: SetConstrained_def SetUnconstrained_def GetConstrained_def
        GetUnconstrained_def Clear_def split: option.splits)
  show ?case
  proof (cases "stores_under_unconstrained owner repo op")
    case True
    then have "constrained (apply_cache_op op c1) s = constrained c1 s"
      using s
      by (cases op) (auto simp: SetConstrained_def SetUnconstrained_def)
    with Cons.prems have "constrained (apply_cache_op op c1) s = constrained c2 s" by simp
    from Cons.IH [OF this] True show ?thesis by simp
  next
    case False
    from Cons.IH [OF step_same] False show ?thesis by simp
  qed
qed

lemma fold_drop_constrained_stores:
  assumes s: "s = String (NewUnconstrainedKey owner repo)"
  shows "unconstrained c1 s = unconstrained c2 s \<Longrightarrow>
    unconstrained (fold apply_cache_op ops c1) s =
    unconstrained (fold apply_cache_op
       (filter (\<lambda>op. \<not> stores_under_constrained owner repo op) ops) c2) s"
proof (induction ops arbitrary: c1 c2)
  case Nil
  then show ?case by simp
next
  case (Cons op ops)
  have step_same: "unconstrained (apply_cache_op op c1) s = unconstrained (apply_cache_op op c2) s"
    using Cons.prems
    by (cases op) (auto simp: SetConstrained_def SetUnconstrained_def GetConstrained_def
        GetUnconstrained_def Clear_def split: option.splits)
  show ?case
  proof (cases "stores_under_constrained owner repo op")
    case True
    have neq: "String k \<noteq> s" if "IsConstrained k" "Owner k = owner" "Repo k = repo" for k
      using that s by (simp add: String_unc_neq_con)
    from True have "unconstrained (apply_cache_op op c1) s = unconstrained c1 s"
      by (cases op) (auto simp: SetConstrained_def SetUnconstrained_def dest: neq)
    with Cons.prems have "unconstrained (apply_cache_op op c1) s = unconstrained c2 s" by simp
    from Cons.IH [OF this] True show ?thesis by simp
  next
    case False
    from Cons.IH [OF step_same] False show ?thesis by simp
  qed
qed

lemma fst_GetConstrained_cong:
  "constrained c1 (String k) = constrained c2 (String k) \<Longrightarrow>
   fst (GetConstrained c1 k) = fst (GetConstrained c2 k)"
  by (simp add: GetConstrained_def split: option.splits)

lemma fst_GetUnconstrained_cong:
  "unconstrained c1 (String k) = unconstrained c2 (String k) \<Longrightarrow>
   fst (GetUnconstrained c1 k) = fst (GetUnconstrained c2 k)"
  by (simp add: GetUnconstrained_def split: option.splits)

text \<open>
  C2. For the cache reached from \<open>NewCache\<close> by any sequence of stores, lookups and
  clears: a constrained lookup for \<open>(owner, repo)\<close> with a non-empty pattern answers
  exactly as it would had no result ever been stored under the unconstrained key of
  \<open>(owner, repo)\<close> (through either setter), so such a result is never what it returns;
  and an unconstrained lookup for \<open>(owner, repo)\<close> answers exactly as it would had no
  result ever been stored under a constrained key of that repository.
\<close>

theorem constrained_unconstrained_never_substituted:
  "(pattern \<noteq> [] \<longrightarrow>
      fst (GetConstrained (run_cache_ops ops) (NewConstrainedKey owner repo ref pattern)) =
      fst (GetConstrained
            (run_cache_ops (filter (\<lambda>op. \<not> stores_under_unconstrained owner repo op) ops))
            (NewConstrainedKey owner repo ref pattern)))
   \<and> fst (GetUnconstrained (run_cache_ops ops) (NewUnconstrainedKey owner repo)) =
      fst (GetUnconstrained
            (run_cache_ops (filter (\<lambda>op. \<not> stores_under_constrained owner repo op) ops))
            (NewUnconstrainedKey owner repo))"
proof (intro conjI impI)
  assume p: "pattern \<noteq> []"
  have "String (NewConstrainedKey owner repo ref pattern) \<noteq>
        String (NewUnconstrainedKey owner repo)"
    using p by (simp add: String_constrained_pattern String_unconstrained)
  from fold_drop_unconstrained_stores [OF this, of NewCache NewCache ops]
  show "fst (GetConstrained (run_cache_ops ops) (NewConstrainedKey owner repo ref pattern)) =
      fst (GetConstrained
            (run_cache_ops (filter (\<lambda>op. \<not> stores_under_unconstrained owner repo op) ops))
            (NewConstrainedKey owner repo ref pattern))"
    unfolding run_cache_ops_def by (intro fst_GetConstrained_cong) simp
next
  from fold_drop_constrained_stores [OF refl, of NewCache owner repo NewCache ops]
  show "fst (GetUnconstrained (run_cache_ops ops) (NewUnconstrainedKey owner repo)) =
      fst (GetUnconstrained
            (run_cache_ops (filter (\<lambda>op. \<not> stores_under_constrained owner repo op) ops))
            (NewUnconstrainedKey owner repo))"
    unfolding run_cache_ops_def by (intro fst_GetUnconstrained_cong) simp
qed

theorem constrained_unconstrained_never_substituted_witness:
  "fst (GetConstrained
     (run_cache_ops
       [OpSetUnconstrained (NewUnconstrainedKey ''actions'' ''checkout'')
          (NewVersionResult ''v4.2.0'' ''def456'' None),
        OpSetConstrained (NewUnconstrainedKey ''actions'' ''checkout'')
          (NewVersionResult ''v4.1.0'' ''fff999'' None),
        OpSetConstrained (NewConstrainedKey ''actions'' ''checkout'' ''v3'' ''^3.0.0'')
          (NewVersionResult ''v3.6.0'' ''abc123'' None)])
     (NewConstrainedKey ''actions'' ''checkout'' ''v3'' ''^3.0.0''))
   = (NewVersionResult ''v3.6.0'' ''abc123'' None, True)
   \<and> fst (GetConstrained
     (run_cache_ops
       [OpSetUnconstrained (NewUnconstrainedKey ''actions'' ''checkout'')
          (NewVersionResult ''v4.2.0'' ''def456'' None),
        OpSetConstrained (NewUnconstrainedKey ''actions'' ''checkout'')
          (NewVersionResult ''v4.1.0'' ''fff999'' None)])
     (NewConstrainedKey ''actions'' ''checkout'' ''v3'' ''^3.0.0''))
   = (VersionResult_zero, False)
   \<and> fst (GetUnconstrained
     (run_cache_ops
       [OpSetUnconstrained (NewConstrainedKey ''actions'' ''checkout'' ''v3'' ''^3.0.0'')
          (NewVersionResult ''v3.6.0'' ''abc123'' None)])
     (NewUnconstrainedKey ''actions'' ''checkout''))
   = (VersionResult_zero, False)"
  using constrained_unconstrained_never_substituted
    [of "''^3.0.0''"
      "[OpSetUnconstrained (NewUnconstrainedKey ''actions'' ''checkout'')
          (NewVersionResult ''v4.2.0'' ''def456'' None),
        OpSetConstrained (NewUnconstrainedKey ''actions'' ''checkout'')
          (NewVersionResult ''v4.1.0'' ''fff999'' None)]"
      "''actions''" "''checkout''" "''v3''"]
    constrained_unconstrained_never_substituted
    [of "''^3.0.0''"
      "[OpSetUnconstrained (NewConstrainedKey ''actions'' ''checkout'' ''v3'' ''^3.0.0'')
          (NewVersionResult ''v3.6.0'' ''abc123'' None)]"
      "''actions''" "''checkout''" "''v3''"]
  by (simp add: run_cache_ops_def NewCache_def GetConstrained_def GetUnconstrained_def
      SetConstrained_def SetUnconstrained_def String_def IsConstrained_def
      NewConstrainedKey_def NewUnconstrainedKey_def NewVersionResult_def)


section \<open>Version patterns\<close>

lemma CutPrefix_caret: "CutPrefix (''^'' @ rest) ''^'' = Some rest"
  by (simp add: CutPrefix_def HasPrefix_def)

lemma CutPrefix_tilde: "CutPrefix (''~'' @ rest) ''~'' = Some rest"
  by (simp add: CutPrefix_def HasPrefix_def)

lemma CutPrefix_tilde_caret: "CutPrefix (''~'' @ rest) ''^'' = None"
  by (simp add: CutPrefix_def HasPrefix_def)

lemma CutPrefix_None: "\<not> HasPrefix s p \<Longrightarrow> CutPrefix s p = None"
  by (simp add: CutPrefix_def)

lemmas pattern_eval =
  matchesVersionPattern_def CutPrefix_def HasPrefix_def spec_version_def
  spec_ExtractMajor_def spec_ExtractMajorMinor_def TrimPrefix_def decimal_def
  digit_value_def less_eq_char_def

text \<open>
  C4. The table of \<open>matchesVersionPattern\<close>, for every tag and whatever package
  \<open>version\<close> extracts: the empty pattern matches every tag; a pattern \<open>^\<close> followed by
  a version of major 1 matches exactly the tags of major version at least 1; \<open>^\<close>
  followed by a version of another major matches exactly the tags of that major; \<open>~\<close>
  followed by a version matches exactly the tags of its major and minor; a non-empty
  pattern that starts with neither matches nothing. With major and minor read as the
  spec describes versions, the five cases of the spec hold.
\<close>

theorem matchesVersionPattern_table:
  "matchesVersionPattern ver t []
   \<and> (ExtractMajor ver rest = 1 \<longrightarrow>
        matchesVersionPattern ver t (''^'' @ rest) = (ExtractMajor ver t \<ge> 1))
   \<and> (ExtractMajor ver rest \<noteq> 1 \<longrightarrow>
        matchesVersionPattern ver t (''^'' @ rest) = (ExtractMajor ver t = ExtractMajor ver rest))
   \<and> matchesVersionPattern ver t (''~'' @ rest) =
        (fst (ExtractMajorMinor ver t) = fst (ExtractMajorMinor ver rest)
         \<and> snd (ExtractMajorMinor ver t) = snd (ExtractMajorMinor ver rest))
   \<and> (pattern \<noteq> [] \<and> \<not> HasPrefix pattern ''^'' \<and> \<not> HasPrefix pattern ''~'' \<longrightarrow>
        \<not> matchesVersionPattern ver t pattern)
   \<and> matchesVersionPattern (spec_version cmp norm) ''v2.0.0'' ''^1.0.0'' = True
   \<and> matchesVersionPattern (spec_version cmp norm) ''v3.0.0'' ''^2.0.0'' = False
   \<and> matchesVersionPattern (spec_version cmp norm) ''v2.5.1'' ''~2.5.0'' = True
   \<and> matchesVersionPattern (spec_version cmp norm) ''v2.6.0'' ''~2.5.0'' = False
   \<and> matchesVersionPattern (spec_version cmp norm) ''2.0.0'' [] = True"
proof (intro conjI impI)
  show "matchesVersionPattern ver t []"
    by (simp add: matchesVersionPattern_def)
  show "matchesVersionPattern ver t (''^'' @ rest) = (ExtractMajor ver t \<ge> 1)"
    if "ExtractMajor ver rest = 1"
    using that CutPrefix_caret [of rest] by (simp add: matchesVersionPattern_def)
  show "matchesVersionPattern ver t (''^'' @ rest) = (ExtractMajor ver t = ExtractMajor ver rest)"
    if "ExtractMajor ver rest \<noteq> 1"
    using that CutPrefix_caret [of rest] by (simp add: matchesVersionPattern_def)
  show "matchesVersionPattern ver t (''~'' @ rest) =
        (fst (ExtractMajorMinor ver t) = fst (ExtractMajorMinor ver rest)
         \<and> snd (ExtractMajorMinor ver t) = snd (ExtractMajorMinor ver rest))"
    using CutPrefix_tilde [of rest] CutPrefix_tilde_caret [of rest]
    by (simp add: matchesVersionPattern_def split: prod.splits)
  show "\<not> matchesVersionPattern ver t pattern"
    if "pattern \<noteq> [] \<and> \<not> HasPrefix pattern ''^'' \<and> \<not> HasPrefix pattern ''~''"
    using that by (simp add: matchesVersionPattern_def CutPrefix_None)
  show "matchesVersionPattern (spec_version cmp norm) ''v2.0.0'' ''^1.0.0'' = True"
    by (simp add: pattern_eval)
  show "matchesVersionPattern (spec_version cmp norm) ''v3.0.0'' ''^2.0.0'' = False"
    by (simp add: pattern_eval)
  show "matchesVersionPattern (spec_version cmp norm) ''v2.5.1'' ''~2.5.0'' = True"
    by (simp add: pattern_eval)
  show "matchesVersionPattern (spec_version cmp norm) ''v2.6.0'' ''~2.5.0'' = False"
    by (simp add: pattern_eval)
  show "matchesVersionPattern (spec_version cmp norm) ''2.0.0'' [] = True"
    by (simp add: matchesVersionPattern_def)
qed

theorem matchesVersionPattern_table_witness:
  "ExtractMajor example_version ''1.0.0'' = 1
   \<and> matchesVersionPattern example_version ''v4.1.0'' (''^'' @ ''1.0.0'') =
       (ExtractMajor example_version ''v4.1.0'' \<ge> 1)
   \<and> ExtractMajor example_version ''v4.1.0'' = 4
   \<and> ExtractMajor example_version ''2.0.0'' \<noteq> 1
   \<and> matchesVersionPattern example_version ''v4.1.0'' (''^'' @ ''2.0.0'') =
       (ExtractMajor example_version ''v4.1.0'' = ExtractMajor example_version ''2.0.0'')
   \<and> ''invalid'' \<noteq> [] \<and> \<not> HasPrefix ''invalid'' ''^'' \<and> \<not> HasPrefix ''invalid'' ''~''
   \<and> \<not> matchesVersionPattern example_version ''2.0.0'' ''invalid''"
proof -
  have h1: "ExtractMajor example_version ''1.0.0'' = 1"
    by (simp add: example_version_def pattern_eval)
  have h2: "ExtractMajor example_version ''2.0.0'' \<noteq> 1"
    by (simp add: example_version_def pattern_eval)
  have h3: "''invalid'' \<noteq> [] \<and> \<not> HasPrefix ''invalid'' ''^'' \<and> \<not> HasPrefix ''invalid'' ''~''"
    by (simp add: HasPrefix_def)
  have h4: "ExtractMajor example_version ''v4.1.0'' = 4"
    by (simp add: example_version_def pattern_eval)
  note T = matchesVersionPattern_table
    [where ver = example_version and t = "''v4.1.0''" and cmp = example_Compare and norm = id]
  note U = matchesVersionPattern_table
    [where ver = example_version and t = "''2.0.0''" and pattern = "''invalid''"
       and rest = "''1.0.0''" and cmp = example_Compare and norm = id]
  from T [where rest = "''1.0.0''" and pattern = "[]"] h1
  have a: "matchesVersionPattern example_version ''v4.1.0'' (''^'' @ ''1.0.0'') =
       (ExtractMajor example_version ''v4.1.0'' \<ge> 1)" by blast
  from T [where rest = "''2.0.0''" and pattern = "[]"] h2
  have b: "matchesVersionPattern example_version ''v4.1.0'' (''^'' @ ''2.0.0'') =
       (ExtractMajor example_version ''v4.1.0'' = ExtractMajor example_version ''2.0.0'')"
    by blast
  from U h3 have c: "\<not> matchesVersionPattern example_version ''2.0.0'' ''invalid''"
    by blast
  from h1 a h4 h2 b h3 c show ?thesis by blast
qed

section \<open>Commit hashes are returned as they are\<close>

text \<open>
  C5. When \<open>ref\<close> is a 40-character hexadecimal string, \<open>GetCommitHash\<close> returns
  \<open>ref\<close> itself and no error, whatever the owner, the repository and the remote, even
  with no page left to fetch; the client is as it was: no request was sent, the API
  client was not built, the cache was neither read nor written.
\<close>

theorem GetCommitHash_short_circuit:
  "IsCommitHash ref \<Longrightarrow> GetCommitHash fuel api ver c owner repo ref = Some ((ref, None), c)"
  by (simp add: GetCommitHash_def)

theorem GetCommitHash_short_circuit_witness:
  "IsCommitHash ''b4ffde65f46336ab88eb53be808477a3936bae11''
   \<and> GetCommitHash 0 example_api example_version (NewClientWithCache NewCache)
        ''actions'' ''checkout'' ''b4ffde65f46336ab88eb53be808477a3936bae11''
      = Some ((''b4ffde65f46336ab88eb53be808477a3936bae11'', None), NewClientWithCache NewCache)"
proof -
  have h: "IsCommitHash ''b4ffde65f46336ab88eb53be808477a3936bae11''"
    by (simp add: IsCommitHash_def is_hex_digit_def less_eq_char_def)
  from GetCommitHash_short_circuit [OF h] h show ?thesis by simp
qed

text \<open>A reference that is not a commit hash is resolved by asking the remote.\<close>

lemma GetCommitHash_tag_asks_remote:
  "GetCommitHash (Suc 0) example_api example_version (NewClientWithCache NewCache)
     ''actions'' ''checkout'' ''v3''
   = Some ((''bbb222'', None), \<lparr>cache = NewCache, github = True, requests = 1\<rparr>)"
  by (simp add: GetCommitHash_def IsCommitHash_def IsMajorVersionOnly_def
      GetLatestMinorVersion_def paginateTags_def getGitHubClient_def example_api_def
      example_version_def example_Compare_def NewClientWithCache_def Let_def pattern_eval)

section \<open>The cache in front of constrained lookups\<close>


lemma paginate_from_effect:
  "paginate_from fuel api c owner repo fn acc page = Some (res, c') \<Longrightarrow>
   cache c' = cache c \<and> github c' = github c \<and> requests c < requests c'"
proof (induction fuel arbitrary: c acc page)
  case 0
  then show ?case by simp
next
  case (Suc fuel)
  show ?case
  proof (cases "ListTags api (requests c) owner repo page")
    case (Inl err)
    with Suc.prems show ?thesis by (auto simp: Let_def)
  next
    case (Inr p)
    obtain tags nextPage where p: "p = (tags, nextPage)" by (cases p)
    obtain acc' cont where e: "each_tag fn acc tags = (acc', cont)"
      by (cases "each_tag fn acc tags")
    show ?thesis
    proof (cases "cont \<and> nextPage \<noteq> 0")
      case True
      with Suc.prems Inr p e
      have "paginate_from fuel api (c\<lparr>requests := requests c + 1\<rparr>) owner repo fn acc' nextPage
            = Some (res, c')"
        by (simp add: Let_def)
      from Suc.IH [OF this] show ?thesis by simp
    next
      case False
      with Suc.prems Inr p e show ?thesis
        by (cases cont) (auto simp: Let_def)
    qed
  qed
qed

lemma fetchMatchingTags_effect:
  "fetchMatchingTags fuel api ver c owner repo pattern = Some (res, c') \<Longrightarrow>
   cache c' = cache c \<and> requests c < requests c'"
  unfolding fetchMatchingTags_def paginateTags_def
  by (drule paginate_from_effect) (simp add: getGitHubClient_def)

lemma GetLatestVersion_hit:
  "constrained (cache c) (String (NewConstrainedKey owner repo cv vp)) = Some r \<Longrightarrow>
   GetLatestVersion fuel api ver c owner repo cv vp =
     Some ((Tag r, Hash r, Err r), c\<lparr>cache := (cache c)\<lparr>hits := hits (cache c) + 1\<rparr>\<rparr>)"
  by (simp add: GetLatestVersion_def GetConstrained_def)

lemma GetLatestVersion_miss:
  assumes miss: "constrained (cache c) (String (NewConstrainedKey owner repo cv vp)) = None"
    and ret: "GetLatestVersion fuel api ver c owner repo cv vp = Some ((t, h, e), c1)"
  shows "requests c < requests c1 \<and>
         cache c1 = SetConstrained (cache c) (NewConstrainedKey owner repo cv vp)
                      (NewVersionResult t h e)"
proof -
  from miss have g: "GetConstrained (cache c) (NewConstrainedKey owner repo cv vp)
      = ((VersionResult_zero, False), cache c)"
    by (simp add: GetConstrained_def)
  have c_same: "c\<lparr>cache := cache c\<rparr> = c" by simp
  show ?thesis
  proof (cases "fetchMatchingTags fuel api ver c owner repo vp")
    case None
    with ret g show ?thesis by (simp add: GetLatestVersion_def)
  next
    case (Some p)
    obtain err tags c0 where p: "p = ((err, tags), c0)" by (cases p) auto
    from fetchMatchingTags_effect [of fuel api ver c owner repo vp "(err, tags)" c0] Some p
    have c0: "cache c0 = cache c" "requests c < requests c0"
      by simp_all
    show ?thesis
    proof (cases err)
      case None
      with ret g Some p c0 show ?thesis
        by (cases tags) (auto simp: GetLatestVersion_def NewVersionResult_def Let_def)
    next
      case (Some a)
      with ret g \<open>fetchMatchingTags fuel api ver c owner repo vp = Some p\<close> p c0 show ?thesis
        by (auto simp: GetLatestVersion_def NewVersionResult_def Let_def)
    qed
  qed
qed

lemma GetLatestVersion_times_hit:
  "constrained (cache c) (String (NewConstrainedKey owner repo cv vp)) = Some r \<Longrightarrow>
   GetLatestVersion_times n fuel api ver c owner repo cv vp =
     Some (replicate n (Tag r, Hash r, Err r),
           c\<lparr>cache := (cache c)\<lparr>hits := hits (cache c) + of_nat n\<rparr>\<rparr>)"
proof (induction n arbitrary: c)
  case 0
  then show ?case by simp
next
  case (Suc n)
  let ?c1 = "c\<lparr>cache := (cache c)\<lparr>hits := hits (cache c) + 1\<rparr>\<rparr>"
  have "constrained (cache ?c1) (String (NewConstrainedKey owner repo cv vp)) = Some r"
    using Suc.prems by simp
  from Suc.IH [OF this] GetLatestVersion_hit [OF Suc.prems, of fuel api ver]
  show ?case by (simp add: add.assoc add.commute)
qed

text \<open>
  The key string tells apart two keys that differ in one component. It need not tell
  apart keys that differ in two: a colon in the repository or in the reference can
  stand for the separator.
\<close>

lemma String_two_components:
  "String (NewConstrainedKey ''a'' ''b:c'' ''d'' ''e'') =
   String (NewConstrainedKey ''a'' ''b'' ''c:d'' ''e'')"
  by (simp add: String_def IsConstrained_def NewConstrainedKey_def)

lemma one_component_changed_String:
  "one_component_changed k k' \<Longrightarrow> String k \<noteq> String k'"
  unfolding one_component_changed_def String_def IsConstrained_def
  by (cases "Owner k = Owner k'"; cases "Repo k = Repo k'"; cases "Ref k = Ref k'";
      cases "Pattern k = Pattern k'") (auto split: if_splits)


text \<open>
  The bound on the number of pages only cuts the loop short: a lookup that returns within
  a bound returns the same within every larger one, and a bound of one page is enough
  when the remote fails or names no next page.
\<close>

lemma paginate_from_more_fuel:
  "paginate_from fuel api c owner repo fn acc page = Some r \<Longrightarrow>
   paginate_from (fuel + k) api c owner repo fn acc page = Some r"
proof (induction fuel arbitrary: c acc page)
  case 0
  then show ?case by simp
next
  case (Suc fuel)
  show ?case
  proof (cases "ListTags api (requests c) owner repo page")
    case (Inl err)
    with Suc.prems show ?thesis by (simp add: Let_def)
  next
    case (Inr p)
    obtain tags nextPage where p: "p = (tags, nextPage)" by (cases p)
    obtain acc' cont where e: "each_tag fn acc tags = (acc', cont)"
      by (cases "each_tag fn acc tags")
    show ?thesis
    proof (cases "cont \<and> nextPage \<noteq> 0")
      case True
      with Suc.prems Inr p e
      have "paginate_from fuel api (c\<lparr>requests := requests c + 1\<rparr>) owner repo fn acc' nextPage
            = Some r"
        by (simp add: Let_def)
      from Suc.IH [OF this] True Inr p e show ?thesis by (simp add: Let_def)
    next
      case False
      with Suc.prems Inr p e show ?thesis
        by (cases cont) (auto simp: Let_def)
    qed
  qed
qed

lemma GetLatestVersion_more_fuel:
  assumes "GetLatestVersion fuel api ver c owner repo cv vp = Some r"
  shows "GetLatestVersion (fuel + k) api ver c owner repo cv vp = Some r"
proof (cases "snd (fst (GetConstrained (cache c) (NewConstrainedKey owner repo cv vp)))")
  case True
  with assms show ?thesis
    by (auto simp: GetLatestVersion_def Let_def split: prod.splits bool.splits)
next
  case False
  with assms obtain q where
    q: "fetchMatchingTags fuel api ver c owner repo vp = Some q"
    by (auto simp: GetLatestVersion_def GetConstrained_def Let_def
        split: prod.splits bool.splits option.splits)
  then have "fetchMatchingTags (fuel + k) api ver c owner repo vp = Some q"
    unfolding fetchMatchingTags_def paginateTags_def by (rule paginate_from_more_fuel)
  with assms q False show ?thesis
    by (auto simp: GetLatestVersion_def GetConstrained_def Let_def
        split: prod.splits bool.splits option.splits)
qed

lemma GetLatestVersion_one_page:
  assumes "case ListTags api (requests c) owner repo 0 of
             Inl err \<Rightarrow> True | Inr (tags, nextPage) \<Rightarrow> nextPage = 0"
  shows "\<exists>r. GetLatestVersion (Suc fuel) api ver c owner repo cv vp = Some r"
proof -
  have "\<exists>q. paginate_from (Suc fuel) api (getGitHubClient c) owner repo fn acc 0 = Some q"
    for fn :: "tagInfo list \<Rightarrow> RepositoryTag \<Rightarrow> tagInfo list \<times> bool" and acc
    using assms
    by (auto simp: Let_def getGitHubClient_def split: sum.splits prod.splits bool.splits)
  then obtain q where "fetchMatchingTags (Suc fuel) api ver c owner repo vp = Some q"
    unfolding fetchMatchingTags_def paginateTags_def by blast
  then show ?thesis
    by (cases q)
       (auto simp: GetLatestVersion_def GetConstrained_def Let_def
          split: prod.splits bool.splits option.splits list.splits)
qed

text \<open>
  A pagination that the remote ends within \<open>k\<close> pages returns within the bound \<open>k\<close>,
  whatever the callback does, and so does the lookup built on it.
\<close>

lemma paginate_from_returns:
  "pages_end_within k api (requests c) owner repo page \<Longrightarrow>
   \<exists>r. paginate_from k api c owner repo fn acc page = Some r"
proof (induction k arbitrary: c acc page)
  case 0
  then show ?case by simp
next
  case (Suc k)
  show ?case
  proof (cases "ListTags api (requests c) owner repo page")
    case (Inl err)
    then show ?thesis by (simp add: Let_def)
  next
    case (Inr p)
    obtain tags nextPage where p: "p = (tags, nextPage)" by (cases p)
    obtain acc' cont where e: "each_tag fn acc tags = (acc', cont)"
      by (cases "each_tag fn acc tags")
    show ?thesis
    proof (cases "cont \<and> nextPage \<noteq> 0")
      case True
      with Suc.prems Inr p
      have "pages_end_within k api (requests (c\<lparr>requests := requests c + 1\<rparr>)) owner repo nextPage"
        by simp
      from Suc.IH [OF this, of acc'] True Inr p e show ?thesis by (simp add: Let_def)
    next
      case False
      with Inr p e show ?thesis by (cases cont) (auto simp: Let_def)
    qed
  qed
qed

lemma GetLatestVersion_returns:
  assumes "pages_end_within k api (requests c) owner repo 0"
  shows "\<exists>r. GetLatestVersion k api ver c owner repo cv vp = Some r"
proof -
  have "\<exists>q. paginate_from k api (getGitHubClient c') owner repo fn acc 0 = Some q"
    if "requests c' = requests c"
    for fn :: "tagInfo list \<Rightarrow> RepositoryTag \<Rightarrow> tagInfo list \<times> bool" and acc c'
    using assms that by (intro paginate_from_returns) (simp add: getGitHubClient_def)
  then have f: "\<exists>q. fetchMatchingTags k api ver c' owner repo vp = Some q"
    if "requests c' = requests c" for c'
    using that unfolding fetchMatchingTags_def paginateTags_def by blast
  obtain q where q: "fetchMatchingTags k api ver c owner repo vp = Some q"
    using f [of c] by auto
  show ?thesis
    using q
    by (cases q)
       (auto simp: GetLatestVersion_def GetConstrained_def Let_def
          split: prod.splits bool.splits option.splits list.splits)
qed

lemma example_pages_end: "pages_end_within (Suc 0) example_api 0 ''actions'' ''checkout'' 0"
  by (simp add: example_api_def)

lemma GetLatestVersion_times_cached:
  "GetLatestVersion_times n fuel api ver c owner repo cv vp = Some (rs, cn) \<Longrightarrow>
   constrained (cache c) (String (NewConstrainedKey owner repo cv vp)) = Some r \<Longrightarrow>
   constrained (cache cn) = constrained (cache c) \<and> requests cn = requests c \<and>
   misses (cache cn) = misses (cache c)"
  using GetLatestVersion_times_hit [of c owner repo cv vp r n fuel api ver] by auto

text \<open>
  C1. A constrained lookup whose key is not cached and that returns has sent requests to
  the remote and has stored its outcome with \<open>SetConstrained\<close>: the miss counter is one
  higher and the hit counter unchanged. Any number of further lookups with the same
  owner, repository, current version and pattern, whatever the remote would answer now
  and whether or not it could still be reached within any bound, return that same tag,
  hash and error (a cached failure included), send no request, store nothing, and
  raise the hit counter by one each. A lookup that then differs in exactly one of the
  four components, for a key that was not cached before, finds nothing in the cache, and
  when it returns it has sent requests and recorded one more miss. Every \<open>Set\<close>
  raises the miss counter by one and every \<open>Get\<close> that finds its key raises the hit
  counter by one.
\<close>

theorem GetLatestVersion_cache_correct:
  "(constrained (cache c) (String (NewConstrainedKey owner repo cv vp)) = None \<and>
    GetLatestVersion fuel api ver c owner repo cv vp = Some ((t, h, e), c1) \<longrightarrow>
      requests c < requests c1
      \<and> cache c1 = SetConstrained (cache c) (NewConstrainedKey owner repo cv vp)
                       (NewVersionResult t h e)
      \<and> misses (cache c1) = misses (cache c) + 1
      \<and> hits (cache c1) = hits (cache c)
      \<and> (\<forall>n fuel' api' ver'.
            GetLatestVersion_times n fuel' api' ver' c1 owner repo cv vp =
              Some (replicate n (t, h, e),
                    c1\<lparr>cache := (cache c1)\<lparr>hits := hits (cache c1) + of_nat n\<rparr>\<rparr>))
      \<and> (\<forall>n fuel' api' ver' rs cn owner' repo' cv' vp'.
            GetLatestVersion_times n fuel' api' ver' c1 owner repo cv vp = Some (rs, cn) \<and>
            one_component_changed (NewConstrainedKey owner repo cv vp)
                                  (NewConstrainedKey owner' repo' cv' vp') \<and>
            constrained (cache c) (String (NewConstrainedKey owner' repo' cv' vp')) = None \<longrightarrow>
              GetConstrained (cache cn) (NewConstrainedKey owner' repo' cv' vp') =
                ((VersionResult_zero, False), cache cn)
              \<and> (\<forall>fuel2 api2 ver2 res2 c2.
                    GetLatestVersion fuel2 api2 ver2 cn owner' repo' cv' vp' = Some (res2, c2) \<longrightarrow>
                      requests cn < requests c2 \<and> misses (cache c2) = misses (cache cn) + 1)))
   \<and> misses (SetConstrained k0 key r) = misses k0 + 1
   \<and> misses (SetUnconstrained k0 key r) = misses k0 + 1
   \<and> (snd (fst (GetConstrained k0 key)) \<longrightarrow> hits (snd (GetConstrained k0 key)) = hits k0 + 1)
   \<and> (snd (fst (GetUnconstrained k0 key)) \<longrightarrow> hits (snd (GetUnconstrained k0 key)) = hits k0 + 1)"
proof (intro conjI impI)
  assume a: "constrained (cache c) (String (NewConstrainedKey owner repo cv vp)) = None \<and>
    GetLatestVersion fuel api ver c owner repo cv vp = Some ((t, h, e), c1)"
  from a GetLatestVersion_miss [of c owner repo cv vp fuel api ver t h e c1]
  have r: "requests c < requests c1"
    and c1: "cache c1 = SetConstrained (cache c) (NewConstrainedKey owner repo cv vp)
                       (NewVersionResult t h e)"
    by simp_all
  show "requests c < requests c1" by (rule r)
  show "cache c1 = SetConstrained (cache c) (NewConstrainedKey owner repo cv vp)
                       (NewVersionResult t h e)" by (rule c1)
  show "misses (cache c1) = misses (cache c) + 1" by (simp add: c1 SetConstrained_def)
  show "hits (cache c1) = hits (cache c)" by (simp add: c1 SetConstrained_def)
  have stored: "constrained (cache c1) (String (NewConstrainedKey owner repo cv vp))
      = Some (NewVersionResult t h e)"
    by (simp add: c1 SetConstrained_def)
  show "\<forall>n fuel' api' ver'.
            GetLatestVersion_times n fuel' api' ver' c1 owner repo cv vp =
              Some (replicate n (t, h, e),
                    c1\<lparr>cache := (cache c1)\<lparr>hits := hits (cache c1) + of_nat n\<rparr>\<rparr>)"
    using GetLatestVersion_times_hit [OF stored] by (simp add: NewVersionResult_def)
  show "\<forall>n fuel' api' ver' rs cn owner' repo' cv' vp'.
            GetLatestVersion_times n fuel' api' ver' c1 owner repo cv vp = Some (rs, cn) \<and>
            one_component_changed (NewConstrainedKey owner repo cv vp)
                                  (NewConstrainedKey owner' repo' cv' vp') \<and>
            constrained (cache c) (String (NewConstrainedKey owner' repo' cv' vp')) = None \<longrightarrow>
              GetConstrained (cache cn) (NewConstrainedKey owner' repo' cv' vp') =
                ((VersionResult_zero, False), cache cn)
              \<and> (\<forall>fuel2 api2 ver2 res2 c2.
                    GetLatestVersion fuel2 api2 ver2 cn owner' repo' cv' vp' = Some (res2, c2) \<longrightarrow>
                      requests cn < requests c2 \<and> misses (cache c2) = misses (cache cn) + 1)"
  proof (intro allI impI)
    fix n fuel' api' ver' rs cn owner' repo' cv' vp'
    assume b: "GetLatestVersion_times n fuel' api' ver' c1 owner repo cv vp = Some (rs, cn) \<and>
            one_component_changed (NewConstrainedKey owner repo cv vp)
                                  (NewConstrainedKey owner' repo' cv' vp') \<and>
            constrained (cache c) (String (NewConstrainedKey owner' repo' cv' vp')) = None"
    from b GetLatestVersion_times_cached [OF _ stored]
    have same: "constrained (cache cn) = constrained (cache c1)" by blast
    from b one_component_changed_String
    have ne: "String (NewConstrainedKey owner repo cv vp) \<noteq>
              String (NewConstrainedKey owner' repo' cv' vp')" by blast
    have none: "constrained (cache cn) (String (NewConstrainedKey owner' repo' cv' vp')) = None"
      using b ne by (simp add: same c1 SetConstrained_def)
    show "GetConstrained (cache cn) (NewConstrainedKey owner' repo' cv' vp') =
                ((VersionResult_zero, False), cache cn)
              \<and> (\<forall>fuel2 api2 ver2 res2 c2.
                    GetLatestVersion fuel2 api2 ver2 cn owner' repo' cv' vp' = Some (res2, c2) \<longrightarrow>
                      requests cn < requests c2 \<and> misses (cache c2) = misses (cache cn) + 1)"
    proof (intro conjI allI impI)
      show "GetConstrained (cache cn) (NewConstrainedKey owner' repo' cv' vp') =
                ((VersionResult_zero, False), cache cn)"
        using none by (simp add: GetConstrained_def)
    next
      fix fuel2 api2 ver2 res2 c2
      assume g: "GetLatestVersion fuel2 api2 ver2 cn owner' repo' cv' vp' = Some (res2, c2)"
      obtain t2 h2 e2 where res2: "res2 = (t2, h2, e2)" by (cases res2) auto
      from GetLatestVersion_miss [OF none g [unfolded res2]]
      show "requests cn < requests c2" by simp
      from GetLatestVersion_miss [OF none g [unfolded res2]]
      show "misses (cache c2) = misses (cache cn) + 1" by (simp add: SetConstrained_def)
    qed
  qed
next
  show "misses (SetConstrained k0 key r) = misses k0 + 1" by (simp add: SetConstrained_def)
  show "misses (SetUnconstrained k0 key r) = misses k0 + 1" by (simp add: SetUnconstrained_def)
  show "hits (snd (GetConstrained k0 key)) = hits k0 + 1" if "snd (fst (GetConstrained k0 key))"
    using that by (simp add: GetConstrained_def split: option.splits)
  show "hits (snd (GetUnconstrained k0 key)) = hits k0 + 1" if "snd (fst (GetUnconstrained k0 key))"
    using that by (simp add: GetUnconstrained_def split: option.splits)
qed

lemma example_first_call:
  "GetLatestVersion (Suc 0) example_api example_version (NewClientWithCache NewCache)
     ''actions'' ''checkout'' ''v3'' ''^3.0.0'' =
   Some ((''v3.6.0'', ''bbb222'', None),
     \<lparr>cache = SetConstrained NewCache (NewConstrainedKey ''actions'' ''checkout'' ''v3'' ''^3.0.0'')
               (NewVersionResult ''v3.6.0'' ''bbb222'' None),
      github = True, requests = 1\<rparr>)"
  by (simp add: GetLatestVersion_def GetConstrained_def NewClientWithCache_def NewCache_def
      fetchMatchingTags_def paginateTags_def getGitHubClient_def example_api_def
      matchesVersionPattern_def CutPrefix_def HasPrefix_def example_version_def spec_version_def
      spec_ExtractMajor_def spec_ExtractMajorMinor_def TrimPrefix_def decimal_def
      digit_value_def less_eq_char_def example_Compare_def Let_def)


theorem GetLatestVersion_cache_correct_witness:
  "constrained (cache (NewClientWithCache NewCache))
     (String (NewConstrainedKey ''actions'' ''checkout'' ''v3'' ''^3.0.0'')) = None
   \<and> GetLatestVersion (Suc 0) example_api example_version (NewClientWithCache NewCache)
       ''actions'' ''checkout'' ''v3'' ''^3.0.0'' =
     Some ((''v3.6.0'', ''bbb222'', None),
       \<lparr>cache = SetConstrained NewCache
                 (NewConstrainedKey ''actions'' ''checkout'' ''v3'' ''^3.0.0'')
                 (NewVersionResult ''v3.6.0'' ''bbb222'' None),
        github = True, requests = 1\<rparr>)
   \<and> GetLatestVersion_times 3 0 example_api example_version
       \<lparr>cache = SetConstrained NewCache
                 (NewConstrainedKey ''actions'' ''checkout'' ''v3'' ''^3.0.0'')
                 (NewVersionResult ''v3.6.0'' ''bbb222'' None),
        github = True, requests = 1\<rparr>
       ''actions'' ''checkout'' ''v3'' ''^3.0.0'' =
     Some ([(''v3.6.0'', ''bbb222'', None), (''v3.6.0'', ''bbb222'', None),
            (''v3.6.0'', ''bbb222'', None)],
       \<lparr>cache = \<lparr>constrained = [''actions/checkout:v3:^3.0.0'' \<mapsto>
                   NewVersionResult ''v3.6.0'' ''bbb222'' None],
                 unconstrained = Map.empty, hits = 3, misses = 1\<rparr>,
        github = True, requests = 1\<rparr>)
   \<and> one_component_changed (NewConstrainedKey ''actions'' ''checkout'' ''v3'' ''^3.0.0'')
        (NewConstrainedKey ''actions'' ''checkout'' ''v3'' ''^4.0.0'')
   \<and> GetConstrained
        \<lparr>constrained = [''actions/checkout:v3:^3.0.0'' \<mapsto>
                   NewVersionResult ''v3.6.0'' ''bbb222'' None],
                 unconstrained = Map.empty, hits = 3, misses = 1\<rparr>
        (NewConstrainedKey ''actions'' ''checkout'' ''v3'' ''^4.0.0'') =
      ((VersionResult_zero, False),
        \<lparr>constrained = [''actions/checkout:v3:^3.0.0'' \<mapsto>
                   NewVersionResult ''v3.6.0'' ''bbb222'' None],
                 unconstrained = Map.empty, hits = 3, misses = 1\<rparr>)"
proof -
  let ?c = "NewClientWithCache NewCache"
  let ?c1 = "\<lparr>cache = SetConstrained NewCache
                 (NewConstrainedKey ''actions'' ''checkout'' ''v3'' ''^3.0.0'')
                 (NewVersionResult ''v3.6.0'' ''bbb222'' None),
        github = True, requests = 1\<rparr>"
  let ?cache3 = "\<lparr>constrained = [''actions/checkout:v3:^3.0.0'' \<mapsto>
                   NewVersionResult ''v3.6.0'' ''bbb222'' None],
                 unconstrained = Map.empty, hits = 3, misses = 1\<rparr>"
  have h1: "constrained (cache ?c)
     (String (NewConstrainedKey ''actions'' ''checkout'' ''v3'' ''^3.0.0'')) = None"
    by (simp add: NewClientWithCache_def NewCache_def)
  have h1': "constrained (cache ?c)
     (String (NewConstrainedKey ''actions'' ''checkout'' ''v3'' ''^4.0.0'')) = None"
    by (simp add: NewClientWithCache_def NewCache_def)
  have h2: "GetLatestVersion (Suc 0) example_api example_version ?c
       ''actions'' ''checkout'' ''v3'' ''^3.0.0'' = Some ((''v3.6.0'', ''bbb222'', None), ?c1)"
    by (rule example_first_call)
  have h3: "one_component_changed (NewConstrainedKey ''actions'' ''checkout'' ''v3'' ''^3.0.0'')
        (NewConstrainedKey ''actions'' ''checkout'' ''v3'' ''^4.0.0'')"
    by (simp add: one_component_changed_def NewConstrainedKey_def)
  note T = GetLatestVersion_cache_correct
    [where c = ?c and owner = "''actions''" and repo = "''checkout''" and cv = "''v3''"
       and vp = "''^3.0.0''" and fuel = "Suc 0" and api = example_api and ver = example_version
       and t = "''v3.6.0''" and h = "''bbb222''" and e = None and ?c1.0 = ?c1,
     THEN conjunct1, rule_format, OF conjI [OF h1 h2]]
  have c3: "?c1\<lparr>cache := (cache ?c1)\<lparr>hits := hits (cache ?c1) + of_nat 3\<rparr>\<rparr>
      = \<lparr>cache = ?cache3, github = True, requests = 1\<rparr>"
    by (simp add: SetConstrained_def NewCache_def String_def IsConstrained_def
        NewConstrainedKey_def)
  from T have t3: "GetLatestVersion_times 3 0 example_api example_version ?c1
       ''actions'' ''checkout'' ''v3'' ''^3.0.0'' =
     Some (replicate 3 (''v3.6.0'', ''bbb222'', None),
       ?c1\<lparr>cache := (cache ?c1)\<lparr>hits := hits (cache ?c1) + of_nat 3\<rparr>\<rparr>)"
    by blast
  then have t3': "GetLatestVersion_times 3 0 example_api example_version ?c1
       ''actions'' ''checkout'' ''v3'' ''^3.0.0'' =
     Some ([(''v3.6.0'', ''bbb222'', None), (''v3.6.0'', ''bbb222'', None),
            (''v3.6.0'', ''bbb222'', None)],
       \<lparr>cache = ?cache3, github = True, requests = 1\<rparr>)"
    unfolding c3 by (simp add: numeral_3_eq_3)
  from T have "\<And>n fuel' api' ver' rs cn owner' repo' cv' vp'.
            GetLatestVersion_times n fuel' api' ver' ?c1 ''actions'' ''checkout'' ''v3'' ''^3.0.0''
               = Some (rs, cn) \<Longrightarrow>
            one_component_changed (NewConstrainedKey ''actions'' ''checkout'' ''v3'' ''^3.0.0'')
                                  (NewConstrainedKey owner' repo' cv' vp') \<Longrightarrow>
            constrained (cache ?c) (String (NewConstrainedKey owner' repo' cv' vp')) = None \<Longrightarrow>
              GetConstrained (cache cn) (NewConstrainedKey owner' repo' cv' vp') =
                ((VersionResult_zero, False), cache cn)"
    by blast
  from this [OF t3' h3 h1'] have g: "GetConstrained ?cache3
        (NewConstrainedKey ''actions'' ''checkout'' ''v3'' ''^4.0.0'') =
      ((VersionResult_zero, False), ?cache3)"
    by simp
  from h1 h2 t3' h3 g show ?thesis by blast
qed

section \<open>Fixed and unfixed issues\<close>



lemma map_bool_remainingKeys:
  "map_bool (fold (\<lambda>issue m. m(Key issue \<mapsto> True)) remaining m0) k =
     (k \<in> Key ` set remaining \<or> map_bool m0 k)"
  by (induction remaining arbitrary: m0) (auto simp: map_bool_def)

lemma remainingKeys_iff: "map_bool (remainingKeys_of remaining) k = (k \<in> Key ` set remaining)"
  by (simp add: remainingKeys_of_def map_bool_remainingKeys) (simp add: map_bool_def)

lemma classify_fold:
  "fold (\<lambda>issue (fixed, unfixed).
                 if P issue then (fixed, unfixed @ [issue])
                 else (fixed @ [issue], unfixed)) original (f0, u0)
   = (f0 @ filter (\<lambda>i. \<not> P i) original, u0 @ filter P original)"
  by (induction original arbitrary: f0 u0) auto

lemma classifyIssues_by_key:
  "classifyIssues original remaining =
     (filter (\<lambda>i. Key i \<notin> Key ` set remaining) original,
      filter (\<lambda>i. Key i \<in> Key ` set remaining) original)"
  by (simp add: classifyIssues_def classify_fold remainingKeys_iff)

lemma Itoa_examples: "Itoa 3 = ''3''" "Itoa 7 = ''7''" "Itoa 10 = ''10''"
  by code_simp+

text \<open>
  The run of \<open>doLintWithFix\<close> on the two-file directory: the first \<open>Lint\<close>, the fix of
  each workflow and the second \<open>Lint\<close>. Of the two enabled linters only the format linter
  changes a workflow (\<open>fixWorkflow\<close>); \<open>FixWorkflow\<close> of the injection linter returns nil
  and does nothing. The linters are visited in the order format, injection.
\<close>

lemma collision_Lint_pass1:
  "fst (Lint collision_env (\<lambda>k ls. ls) (collision_orchestrator [collision_ci, collision_greet]))
   = Inr collision_pass1"
  by code_simp

lemma collision_fix_ci_content:
  "map_option (\<lambda>fixed. Join_newline (removeTrailingEmpty fixed) @ [CHR 0x0A])
     (fixLines (Some collision_settings) (Lines collision_ci)) = Some collision_ci_fixed_bytes"
  by code_simp

lemma collision_fix_greet_content:
  "map_option (\<lambda>fixed. Join_newline (removeTrailingEmpty fixed) @ [CHR 0x0A])
     (fixLines (Some collision_settings) (Lines collision_greet)) = Some collision_greet_bytes"
  by code_simp

lemma collision_fix_ci:
  "fixWorkflow write_to_map (Some collision_settings) fs collision_ci
   = Some (None, collision_ci_fixed, fs(wfFile collision_ci \<mapsto> collision_ci_fixed_bytes))"
  using collision_fix_ci_content
  by (cases "fixLines (Some collision_settings) (Lines collision_ci)")
     (simp_all add: fixWorkflow_def write_to_map_def collision_ci_fixed_def Let_def)

lemma collision_fix_greet:
  "fixWorkflow write_to_map (Some collision_settings) fs collision_greet
   = Some (None, collision_greet, fs(wfFile collision_greet \<mapsto> collision_greet_bytes))"
  using collision_fix_greet_content
  by (cases "fixLines (Some collision_settings) (Lines collision_greet)")
     (simp_all add: fixWorkflow_def write_to_map_def collision_greet_def Let_def)

lemma collision_Lint_pass2:
  "fst (Lint collision_env (\<lambda>k ls. ls)
          (collision_orchestrator [collision_ci_fixed, collision_greet]))
   = Inr collision_pass2"
  by code_simp

lemma collision_classify:
  "classifyIssues collision_pass1 collision_pass2
   = ([collision_blank_issue], [collision_ci_issue 12, collision_greet_issue])"
  by code_simp

lemma collision_not_remaining: "collision_ci_issue 12 \<notin> set collision_pass2"
  by code_simp

lemma collision_same_Key: "Key (collision_ci_issue 12) = Key collision_greet_issue"
  by code_simp

text \<open>
  C6. \<open>classifyIssues\<close> compares issues by \<open>Key\<close>, the four fields joined by colons,
  and two issues that differ in file, line and message can have the same key. On the
  two-file directory the first \<open>Lint\<close> returns \<open>collision_pass1\<close>; the fix removes a blank
  line of \<^verbatim>\<open>ci.yml\<close> and leaves the other file as it is; the second \<open>Lint\<close> returns
  \<open>collision_pass2\<close>, where the injection issue of \<^verbatim>\<open>ci.yml\<close> is on line 11. The
  injection issue of the first pass, on line 12 of \<^verbatim>\<open>ci.yml\<close>, has a 4-tuple that no
  issue of the second pass has, so by its identity 4-tuple it is fixed; its key is the
  key of the issue of the other file, and the code returns it as unfixed.
\<close>

theorem classifyIssues_key_collision:
  "fst (Lint collision_env (\<lambda>k ls. ls) (collision_orchestrator [collision_ci, collision_greet]))
     = Inr collision_pass1
   \<and> fixWorkflow write_to_map (Some collision_settings) collision_fs collision_ci
     = Some (None, collision_ci_fixed,
             collision_fs(wfFile collision_ci \<mapsto> collision_ci_fixed_bytes))
   \<and> fixWorkflow write_to_map (Some collision_settings)
         (collision_fs(wfFile collision_ci \<mapsto> collision_ci_fixed_bytes)) collision_greet
     = Some (None, collision_greet,
             collision_fs(wfFile collision_ci \<mapsto> collision_ci_fixed_bytes,
                          wfFile collision_greet \<mapsto> collision_greet_bytes))
   \<and> fst (Lint collision_env (\<lambda>k ls. ls)
            (collision_orchestrator [collision_ci_fixed, collision_greet]))
     = Inr collision_pass2
   \<and> classifyIssues collision_pass1 collision_pass2
     = ([collision_blank_issue], [collision_ci_issue 12, collision_greet_issue])
   \<and> collision_ci_issue 12 \<in> set collision_pass1
   \<and> collision_ci_issue 12 \<notin> set collision_pass2
   \<and> Key (collision_ci_issue 12) = Key collision_greet_issue"
  using collision_Lint_pass1 collision_fix_ci [of collision_fs]
    collision_fix_greet [of "collision_fs(wfFile collision_ci \<mapsto> collision_ci_fixed_bytes)"]
    collision_Lint_pass2 collision_classify collision_not_remaining collision_same_Key
  by (simp add: collision_pass1_def)

lemma classifyIssues_by_identity:
  assumes "inj_on Key (set original \<union> set remaining)"
  shows "classifyIssues original remaining =
     (filter (\<lambda>i. i \<notin> set remaining) original, filter (\<lambda>i. i \<in> set remaining) original)"
proof -
  have "Key i \<in> Key ` set remaining \<longleftrightarrow> i \<in> set remaining" if "i \<in> set original" for i
    using assms that by (auto simp: inj_on_def)
  then show ?thesis
    by (simp add: classifyIssues_by_key cong: filter_cong)
qed

section \<open>Issues have a message\<close>

lemma newIssue_Some: "newIssue file line message = Some i \<Longrightarrow> Message i \<noteq> []"
  by (auto simp: newIssue_def split: if_splits)

text \<open>
  C9. \<open>newIssue\<close> returns nil for the empty message and otherwise an issue with that
  message, so every issue it produces has a non-empty message; so have the issues of
  the name-length and naming-convention checks. The slice that \<open>checkWorkflowName\<close>
  builds from them holds no nil pointer and no issue with an empty message. A name
  within the length bounds gives no length issue, and a named workflow for which both
  checks find nothing contributes no issue at all.
\<close>

theorem newIssue_message_nonempty:
  "newIssue file line [] = None
   \<and> (message \<noteq> [] \<longrightarrow>
        newIssue file line message =
          Some \<lparr>File = file, Line = line, Linter = [], Message = message\<rparr>)
   \<and> (\<forall>i. newIssue file line message = Some i \<longrightarrow> Message i \<noteq> [])
   \<and> (\<forall>i. checkNameLength settings name file line ctx = Some i \<longrightarrow> Message i \<noteq> [])
   \<and> (\<forall>i. checkNamingConvention settings name file line ctx = Some i \<longrightarrow> Message i \<noteq> [])
   \<and> None \<notin> set (checkWorkflowName settings w file)
   \<and> (\<forall>i. Some i \<in> set (checkWorkflowName settings w file) \<longrightarrow> Message i \<noteq> [])
   \<and> (\<not> (MinNameLength settings > 0 \<and> int (length name) < MinNameLength settings) \<and>
       \<not> (MaxNameLength settings > 0 \<and> int (length name) > MaxNameLength settings) \<longrightarrow>
        checkNameLength settings name file line ctx = None)
   \<and> (Content w = Some content \<and> Name content \<noteq> [] \<and>
       checkNameLength settings (Name content) file 1 ctxWorkflow = None \<and>
       checkNamingConvention settings (Name content) file 1 ctxWorkflow = None \<longrightarrow>
        checkWorkflowName settings w file = [])"
proof (intro conjI allI impI)
  show "newIssue file line [] = None" by (simp add: newIssue_def)
  show "newIssue file line message =
          Some \<lparr>File = file, Line = line, Linter = [], Message = message\<rparr>"
    if "message \<noteq> []" using that by (simp add: newIssue_def)
  show "Message i \<noteq> []" if "newIssue file line message = Some i" for i
    using that by (rule newIssue_Some)
  show "Message i \<noteq> []" if "checkNameLength settings name file line ctx = Some i" for i
    using that unfolding checkNameLength_def Let_def by (rule newIssue_Some)
  show "Message i \<noteq> []" if "checkNamingConvention settings name file line ctx = Some i" for i
    using that unfolding checkNamingConvention_def Let_def
    by (auto split: if_splits dest: newIssue_Some)
  show "None \<notin> set (checkWorkflowName settings w file)"
    by (auto simp: checkWorkflowName_def newIssue_def Let_def split: option.splits)
  show "Message i \<noteq> []" if "Some i \<in> set (checkWorkflowName settings w file)" for i
  proof -
    have a: "Message j \<noteq> []"
      if "checkNameLength settings n file 1 ctxWorkflow = Some j" for j n
      using that unfolding checkNameLength_def Let_def by (rule newIssue_Some)
    have b: "Message j \<noteq> []"
      if "checkNamingConvention settings n file 1 ctxWorkflow = Some j" for j n
      using that unfolding checkNamingConvention_def Let_def
      by (auto split: if_splits dest: newIssue_Some)
    from that show ?thesis
      by (auto simp: checkWorkflowName_def Let_def newIssue_def
          split: option.splits if_splits dest: a b a [OF sym] b [OF sym])
  qed
  show "checkNameLength settings name file line ctx = None"
    if "\<not> (MinNameLength settings > 0 \<and> int (length name) < MinNameLength settings) \<and>
       \<not> (MaxNameLength settings > 0 \<and> int (length name) > MaxNameLength settings)"
    using that by (auto simp: checkNameLength_def newIssue_def)
  show "checkWorkflowName settings w file = []"
    if "Content w = Some content \<and> Name content \<noteq> [] \<and>
       checkNameLength settings (Name content) file 1 ctxWorkflow = None \<and>
       checkNamingConvention settings (Name content) file 1 ctxWorkflow = None"
    using that by (simp add: checkWorkflowName_def)
qed



theorem newIssue_message_nonempty_witness:
  "''Workflow is missing a name'' \<noteq> []
   \<and> newIssue ''ci.yml'' 1 ''Workflow is missing a name'' =
       Some \<lparr>File = ''ci.yml'', Line = 1, Linter = [], Message = ''Workflow is missing a name''\<rparr>
   \<and> checkNameLength example_style ''ci'' ''ci.yml'' 1 ctxWorkflow =
       Some \<lparr>File = ''ci.yml'', Line = 1, Linter = [],
             Message = ''Workflow name '' @ [CHR 0x27] @ ''ci'' @ [CHR 0x27] @ '' is too short (min 3 chars)''\<rparr>
   \<and> Message \<lparr>File = ''ci.yml'', Line = 1, Linter = [],
             Message = ''Workflow name '' @ [CHR 0x27] @ ''ci'' @ [CHR 0x27] @ '' is too short (min 3 chars)''\<rparr> \<noteq> []
   \<and> \<not> (MinNameLength example_style > 0 \<and> int (length ''CI Build'') < MinNameLength example_style)
   \<and> \<not> (MaxNameLength example_style > 0 \<and> int (length ''CI Build'') > MaxNameLength example_style)
   \<and> checkNameLength example_style ''CI Build'' ''ci.yml'' 1 ctxWorkflow = None
   \<and> Content example_workflow = Some \<lparr>Name = ''CI Build'', Permissions = False\<rparr>
   \<and> checkNamingConvention example_style ''CI Build'' ''ci.yml'' 1 ctxWorkflow = None
   \<and> checkWorkflowName example_style example_workflow ''ci.yml'' = []"
proof -
  note T = newIssue_message_nonempty
    [of "''ci.yml''" 1 _ example_style _ ctxWorkflow example_workflow
       "\<lparr>Name = ''CI Build'', Permissions = False\<rparr>"]
  have h0: "''Workflow is missing a name'' \<noteq> []" by simp
  have h1: "checkNameLength example_style ''ci'' ''ci.yml'' 1 ctxWorkflow =
       Some \<lparr>File = ''ci.yml'', Line = 1, Linter = [],
             Message = ''Workflow name '' @ [CHR 0x27] @ ''ci'' @ [CHR 0x27] @ '' is too short (min 3 chars)''\<rparr>"
    by (simp add: checkNameLength_def example_style_def newIssue_def ctxWorkflow_def Itoa_examples)
  have h2: "\<not> (MinNameLength example_style > 0 \<and> int (length ''CI Build'') < MinNameLength example_style)
   \<and> \<not> (MaxNameLength example_style > 0 \<and> int (length ''CI Build'') > MaxNameLength example_style)"
    by (simp add: example_style_def)
  have h3: "Content example_workflow = Some \<lparr>Name = ''CI Build'', Permissions = False\<rparr>"
    by (simp add: example_workflow_def)
  have h4: "checkNamingConvention example_style ''CI Build'' ''ci.yml'' 1 ctxWorkflow = None"
    by (simp add: checkNamingConvention_def example_style_def Fields_def ascii_space_def
        IsUpper_byte_def newIssue_def)
  from T [of "''Workflow is missing a name''" "''ci''"] h0
  have a: "newIssue ''ci.yml'' 1 ''Workflow is missing a name'' =
       Some \<lparr>File = ''ci.yml'', Line = 1, Linter = [], Message = ''Workflow is missing a name''\<rparr>"
    by blast
  from T [of "[]" "''ci''"] h1
  have b: "Message \<lparr>File = ''ci.yml'', Line = 1, Linter = [],
             Message = ''Workflow name '' @ [CHR 0x27] @ ''ci'' @ [CHR 0x27] @ '' is too short (min 3 chars)''\<rparr> \<noteq> []"
    by blast
  from T [of "[]" "''CI Build''"] h2
  have c: "checkNameLength example_style ''CI Build'' ''ci.yml'' 1 ctxWorkflow = None"
    by blast
  from T [of "[]" "''CI Build''"] h3 c h4
  have d: "checkWorkflowName example_style example_workflow ''ci.yml'' = []"
    by simp
  from h0 a h1 b h2 c h3 h4 d show ?thesis by blast
qed

section \<open>The orchestrator fails fast and tags issues\<close>

lemma lint_linters_Inl:
  "lint_linters c w es allIssues = Inl e \<Longrightarrow>
   \<exists>name lt issues err. (name, lt) \<in> set es \<and> IsLinterEnabled c name \<and>
     LintWorkflow lt w = (issues, Some err) \<and>
     e = ErrorWrap (''linter '' @ name @ '' failed on '' @ wfFile w @ '': '') err"
proof (induction es arbitrary: allIssues)
  case Nil
  then show ?case by simp
next
  case (Cons a es)
  obtain name lt where a: "a = (name, lt)" by (cases a)
  obtain issues oerr where r: "LintWorkflow lt w = (issues, oerr)" by (cases "LintWorkflow lt w")
  show ?case
  proof (cases "IsLinterEnabled c name")
    case False
    with Cons.prems a have "lint_linters c w es allIssues = Inl e" by simp
    from Cons.IH [OF this] show ?thesis by auto
  next
    case True
    show ?thesis
    proof (cases oerr)
      case None
      with Cons.prems a r True
      have "lint_linters c w es (allIssues @ map (\<lambda>issue. issue\<lparr>Linter := name\<rparr>) issues) = Inl e"
        by simp
      from Cons.IH [OF this] show ?thesis by auto
    next
      case (Some err)
      with Cons.prems a r True show ?thesis by auto
    qed
  qed
qed

text \<open>The issues one visit of the linters adds when none of them fails.\<close>

lemma lint_linters_Inr:
  "lint_linters c w es allIssues = Inr out \<Longrightarrow>
   (\<forall>(name, lt) \<in> set es. IsLinterEnabled c name \<longrightarrow> snd (LintWorkflow lt w) = None) \<and>
   out = allIssues @ concat (map (\<lambda>(name, lt).
           if IsLinterEnabled c name
           then map (\<lambda>issue. issue\<lparr>Linter := name\<rparr>) (fst (LintWorkflow lt w)) else []) es)"
proof (induction es arbitrary: allIssues)
  case Nil
  then show ?case by simp
next
  case (Cons a es)
  obtain name lt where a: "a = (name, lt)" by (cases a)
  obtain issues oerr where r: "LintWorkflow lt w = (issues, oerr)" by (cases "LintWorkflow lt w")
  show ?case
  proof (cases "IsLinterEnabled c name")
    case False
    with Cons.prems a have "lint_linters c w es allIssues = Inr out" by simp
    from Cons.IH [OF this] False a show ?thesis by auto
  next
    case True
    show ?thesis
    proof (cases oerr)
      case None
      with Cons.prems a r True
      have "lint_linters c w es (allIssues @ map (\<lambda>issue. issue\<lparr>Linter := name\<rparr>) issues) = Inr out"
        by simp
      from Cons.IH [OF this] True a r None show ?thesis by auto
    next
      case (Some err)
      with Cons.prems a r True show ?thesis by auto
    qed
  qed
qed

lemma lint_workflows_Inl:
  "lint_workflows c order ls k ws allIssues = Inl e \<Longrightarrow>
   \<exists>k' w name lt issues err. w \<in> set ws \<and> (name, lt) \<in> set (order k' ls) \<and>
     IsLinterEnabled c name \<and> LintWorkflow lt w = (issues, Some err) \<and>
     e = ErrorWrap (''linter '' @ name @ '' failed on '' @ wfFile w @ '': '') err"
proof (induction ws arbitrary: k allIssues)
  case Nil
  then show ?case by simp
next
  case (Cons w ws)
  show ?case
  proof (cases "lint_linters c w (order k ls) allIssues")
    case (Inl e')
    with Cons.prems have "e' = e" by simp
    with lint_linters_Inl [OF Inl] show ?thesis by fastforce
  next
    case (Inr all')
    with Cons.prems have "lint_workflows c order ls (Suc k) ws all' = Inl e" by simp
    from Cons.IH [OF this] show ?thesis by fastforce
  qed
qed

lemma lint_workflows_Inr:
  "lint_workflows c order ls k ws allIssues = Inr out \<Longrightarrow>
   (\<forall>j < length ws. \<forall>(name, lt) \<in> set (order (k + j) ls).
       IsLinterEnabled c name \<longrightarrow> snd (LintWorkflow lt (ws ! j)) = None) \<and>
   (\<forall>i \<in> set out. i \<in> set allIssues \<or>
      (\<exists>j < length ws. \<exists>(name, lt) \<in> set (order (k + j) ls). IsLinterEnabled c name \<and>
         Linter i = name \<and>
         (\<exists>i0 \<in> set (fst (LintWorkflow lt (ws ! j))). i = i0\<lparr>Linter := name\<rparr>)))"
proof (induction ws arbitrary: k allIssues)
  case Nil
  then show ?case by simp
next
  case (Cons w ws)
  show ?case
  proof (cases "lint_linters c w (order k ls) allIssues")
    case (Inl e')
    with Cons.prems show ?thesis by simp
  next
    case (Inr all')
    with Cons.prems have rest: "lint_workflows c order ls (Suc k) ws all' = Inr out" by simp
    note IH = Cons.IH [OF rest]
    note L = lint_linters_Inr [OF Inr]
    have first: "\<forall>(name, lt) \<in> set (order k ls).
       IsLinterEnabled c name \<longrightarrow> snd (LintWorkflow lt w) = None"
      using L by blast
    have all': "\<forall>i \<in> set all'. i \<in> set allIssues \<or>
       (\<exists>(name, lt) \<in> set (order k ls). IsLinterEnabled c name \<and> Linter i = name \<and>
          (\<exists>i0 \<in> set (fst (LintWorkflow lt w)). i = i0\<lparr>Linter := name\<rparr>))"
      using L by (auto split: if_splits)
    have A: "\<forall>j < length (w # ws). \<forall>(name, lt) \<in> set (order (k + j) ls).
         IsLinterEnabled c name \<longrightarrow> snd (LintWorkflow lt ((w # ws) ! j)) = None"
    proof (intro allI impI)
      fix j assume "j < length (w # ws)"
      then show "\<forall>(name, lt) \<in> set (order (k + j) ls).
         IsLinterEnabled c name \<longrightarrow> snd (LintWorkflow lt ((w # ws) ! j)) = None"
        using first IH by (cases j) auto
    qed
    have B: "\<forall>i \<in> set out. i \<in> set allIssues \<or>
        (\<exists>j < length (w # ws). \<exists>(name, lt) \<in> set (order (k + j) ls). IsLinterEnabled c name \<and>
         Linter i = name \<and>
         (\<exists>i0 \<in> set (fst (LintWorkflow lt ((w # ws) ! j))). i = i0\<lparr>Linter := name\<rparr>))"
    proof
      fix i assume "i \<in> set out"
      with IH have "i \<in> set all' \<or>
        (\<exists>j < length ws. \<exists>(name, lt) \<in> set (order (Suc k + j) ls). IsLinterEnabled c name \<and>
         Linter i = name \<and>
         (\<exists>i0 \<in> set (fst (LintWorkflow lt (ws ! j))). i = i0\<lparr>Linter := name\<rparr>))"
        by blast
      then show "i \<in> set allIssues \<or>
        (\<exists>j < length (w # ws). \<exists>(name, lt) \<in> set (order (k + j) ls). IsLinterEnabled c name \<and>
         Linter i = name \<and>
         (\<exists>i0 \<in> set (fst (LintWorkflow lt ((w # ws) ! j))). i = i0\<lparr>Linter := name\<rparr>))"
      proof
        assume "i \<in> set all'"
        with all' have "i \<in> set allIssues \<or>
          (0 < length (w # ws) \<and> (\<exists>(name, lt) \<in> set (order (k + 0) ls). IsLinterEnabled c name \<and>
            Linter i = name \<and>
            (\<exists>i0 \<in> set (fst (LintWorkflow lt ((w # ws) ! 0))). i = i0\<lparr>Linter := name\<rparr>)))"
          by auto
        then show ?thesis by blast
      next
        assume "\<exists>j < length ws. \<exists>(name, lt) \<in> set (order (Suc k + j) ls). IsLinterEnabled c name \<and>
         Linter i = name \<and>
         (\<exists>i0 \<in> set (fst (LintWorkflow lt (ws ! j))). i = i0\<lparr>Linter := name\<rparr>)"
        then obtain j where "j < length ws"
          "\<exists>(name, lt) \<in> set (order (Suc k + j) ls). IsLinterEnabled c name \<and>
         Linter i = name \<and>
         (\<exists>i0 \<in> set (fst (LintWorkflow lt (ws ! j))). i = i0\<lparr>Linter := name\<rparr>)" by blast
        then have "Suc j < length (w # ws) \<and>
          (\<exists>(name, lt) \<in> set (order (k + Suc j) ls). IsLinterEnabled c name \<and>
         Linter i = name \<and>
         (\<exists>i0 \<in> set (fst (LintWorkflow lt ((w # ws) ! Suc j))). i = i0\<lparr>Linter := name\<rparr>))"
          by simp
        then show ?thesis by blast
      qed
    qed
    from A B show ?thesis by blast
  qed
qed


text \<open>
  C8. With the configuration loaded and every visit of the linter map reaching each of
  its entries: if some enabled linter returns an error on some workflow, \<open>Lint\<close>
  returns no issue list but an error, which wraps the error of an enabled linter that
  failed on a workflow and names that linter and the file of that workflow; the
  issues collected before are not returned. If no enabled linter returns an error,
  \<open>Lint\<close> returns issues only, and each of them is an issue that an enabled linter
  returned for one of the workflows, with the field \<open>Linter\<close> set to the name under
  which that linter is registered. When the configuration is not loaded yet, \<open>Lint\<close>
  fails with the error of loading it, or goes on as above with the loaded
  configuration and the linters created from it.
\<close>

theorem Lint_fail_fast:
  "(cfg l = Some c \<and> (\<forall>k. set (order k (linters l)) = set (linters l)) \<longrightarrow>
      ((\<exists>w \<in> set (workflows l). \<exists>(name, lt) \<in> set (linters l).
           IsLinterEnabled c name \<and> snd (LintWorkflow lt w) \<noteq> None) \<longrightarrow>
         (\<exists>w name lt issues err.
            w \<in> set (workflows l) \<and> (name, lt) \<in> set (linters l) \<and> IsLinterEnabled c name \<and>
            LintWorkflow lt w = (issues, Some err) \<and>
            Lint env order l =
              (Inl (ErrorWrap (''linter '' @ name @ '' failed on '' @ wfFile w @ '': '') err), l)))
      \<and> ((\<forall>w \<in> set (workflows l). \<forall>(name, lt) \<in> set (linters l).
           IsLinterEnabled c name \<longrightarrow> snd (LintWorkflow lt w) = None) \<longrightarrow>
         (\<exists>out. Lint env order l = (Inr out, l) \<and>
            (\<forall>i \<in> set out. \<exists>w \<in> set (workflows l). \<exists>(name, lt) \<in> set (linters l).
               IsLinterEnabled c name \<and> Linter i = name \<and>
               (\<exists>i0 \<in> set (fst (LintWorkflow lt w)). i = i0\<lparr>Linter := name\<rparr>)))))
   \<and> (cfg l = None \<and> LoadConfig env (configFile l) = Inl e \<longrightarrow>
        Lint env order l = (Inl (ErrorWrap ''failed to load config: '' e), l))
   \<and> (cfg l = None \<and> LoadConfig env (configFile l) = Inr c \<longrightarrow>
        Lint env order l =
          Lint env order (l\<lparr>cfg := Some c, linters := createLinters env (Some c)\<rparr>))"
proof (intro conjI impI)
  assume a: "cfg l = Some c \<and> (\<forall>k. set (order k (linters l)) = set (linters l))"
  then have L: "Lint env order l = (lint_workflows c order (linters l) 0 (workflows l) [], l)"
    by (simp add: Lint_def)
  from a have ord: "set (order k (linters l)) = set (linters l)" for k by blast
  {
    assume f: "\<exists>w \<in> set (workflows l). \<exists>(name, lt) \<in> set (linters l).
           IsLinterEnabled c name \<and> snd (LintWorkflow lt w) \<noteq> None"
    show "\<exists>w name lt issues err.
            w \<in> set (workflows l) \<and> (name, lt) \<in> set (linters l) \<and> IsLinterEnabled c name \<and>
            LintWorkflow lt w = (issues, Some err) \<and>
            Lint env order l =
              (Inl (ErrorWrap (''linter '' @ name @ '' failed on '' @ wfFile w @ '': '') err), l)"
    proof (cases "lint_workflows c order (linters l) 0 (workflows l) []")
      case (Inl e')
      from lint_workflows_Inl [OF Inl] ord L Inl show ?thesis by fastforce
    next
      case (Inr out)
      from f obtain w name lt where w: "w \<in> set (workflows l)" "(name, lt) \<in> set (linters l)"
        "IsLinterEnabled c name" "snd (LintWorkflow lt w) \<noteq> None" by blast
      from w(1) obtain j where j: "j < length (workflows l)" "workflows l ! j = w"
        by (auto simp: in_set_conv_nth)
      from lint_workflows_Inr [OF Inr] j ord [of "0 + j"] w(2,3)
      have "snd (LintWorkflow lt w) = None" by fastforce
      with w(4) show ?thesis by simp
    qed
  }
  {
    assume g: "\<forall>w \<in> set (workflows l). \<forall>(name, lt) \<in> set (linters l).
           IsLinterEnabled c name \<longrightarrow> snd (LintWorkflow lt w) = None"
    show "\<exists>out. Lint env order l = (Inr out, l) \<and>
            (\<forall>i \<in> set out. \<exists>w \<in> set (workflows l). \<exists>(name, lt) \<in> set (linters l).
               IsLinterEnabled c name \<and> Linter i = name \<and>
               (\<exists>i0 \<in> set (fst (LintWorkflow lt w)). i = i0\<lparr>Linter := name\<rparr>))"
    proof (cases "lint_workflows c order (linters l) 0 (workflows l) []")
      case (Inl e')
      from lint_workflows_Inl [OF Inl] obtain k' w name lt issues err where
        "w \<in> set (workflows l)" "(name, lt) \<in> set (order k' (linters l))"
        "IsLinterEnabled c name" "LintWorkflow lt w = (issues, Some err)" by blast
      with g ord [of k'] show ?thesis by fastforce
    next
      case (Inr out)
      have "\<exists>w \<in> set (workflows l). \<exists>(name, lt) \<in> set (linters l).
               IsLinterEnabled c name \<and> Linter i = name \<and>
               (\<exists>i0 \<in> set (fst (LintWorkflow lt w)). i = i0\<lparr>Linter := name\<rparr>)"
        if "i \<in> set out" for i
      proof -
        from lint_workflows_Inr [OF Inr] that obtain j where j: "j < length (workflows l)"
          "\<exists>(name, lt) \<in> set (order (0 + j) (linters l)). IsLinterEnabled c name \<and>
             Linter i = name \<and>
             (\<exists>i0 \<in> set (fst (LintWorkflow lt (workflows l ! j))). i = i0\<lparr>Linter := name\<rparr>)"
          by (simp del: add_0) blast
        from j(1) have "workflows l ! j \<in> set (workflows l)" by simp
        with j(2) ord [of "0 + j"] show ?thesis by blast
      qed
      with L Inr show ?thesis by simp
    qed
  }
next
  show "Lint env order l = (Inl (ErrorWrap ''failed to load config: '' e), l)"
    if "cfg l = None \<and> LoadConfig env (configFile l) = Inl e"
    using that by (simp add: Lint_def)
  show "Lint env order l =
          Lint env order (l\<lparr>cfg := Some c, linters := createLinters env (Some c)\<rparr>)"
    if "cfg l = None \<and> LoadConfig env (configFile l) = Inr c"
    using that by (simp add: Lint_def Let_def)
qed



theorem Lint_fail_fast_witness:
  "cfg failing_orchestrator = Some example_config
   \<and> (\<forall>k. set ((\<lambda>k xs. xs) k (linters failing_orchestrator)) = set (linters failing_orchestrator))
   \<and> (\<exists>w \<in> set (workflows failing_orchestrator). \<exists>(name, lt) \<in> set (linters failing_orchestrator).
           IsLinterEnabled example_config name \<and> snd (LintWorkflow lt w) \<noteq> None)
   \<and> (\<exists>w name lt issues err.
            w \<in> set (workflows failing_orchestrator) \<and>
            (name, lt) \<in> set (linters failing_orchestrator) \<and>
            IsLinterEnabled example_config name \<and>
            LintWorkflow lt w = (issues, Some err) \<and>
            Lint example_env (\<lambda>k xs. xs) failing_orchestrator =
              (Inl (ErrorWrap (''linter '' @ name @ '' failed on '' @ wfFile w @ '': '') err),
               failing_orchestrator))
   \<and> Lint example_env (\<lambda>k xs. xs) failing_orchestrator =
       (Inl (ErrorWrap ''linter versions failed on .github/workflows/ci.yml: ''
              (ErrorNew ''failed to find actions'')), failing_orchestrator)
   \<and> cfg passing_orchestrator = Some example_config
   \<and> (\<exists>out. Lint example_env (\<lambda>k xs. xs) passing_orchestrator = (Inr out, passing_orchestrator) \<and>
            (\<forall>i \<in> set out. \<exists>w \<in> set (workflows passing_orchestrator).
               \<exists>(name, lt) \<in> set (linters passing_orchestrator).
               IsLinterEnabled example_config name \<and> Linter i = name \<and>
               (\<exists>i0 \<in> set (fst (LintWorkflow lt w)). i = i0\<lparr>Linter := name\<rparr>)))
   \<and> Lint example_env (\<lambda>k xs. xs) passing_orchestrator =
       (Inr [\<lparr>File = ''ci.yml'', Line = 0, Linter = ''permissions'',
              Message = ''Workflow is missing permissions configuration''\<rparr>],
        passing_orchestrator)"
proof -
  have h1: "cfg failing_orchestrator = Some example_config"
    by (simp add: failing_orchestrator_def)
  have h2: "\<forall>k. set ((\<lambda>k xs. xs) k (linters failing_orchestrator)) = set (linters failing_orchestrator)"
    by simp
  have en: "IsLinterEnabled example_config name" for name
    by (simp add: IsLinterEnabled_def example_config_def defaultLinterDefault_def)
  have h3: "\<exists>w \<in> set (workflows failing_orchestrator). \<exists>(name, lt) \<in> set (linters failing_orchestrator).
           IsLinterEnabled example_config name \<and> snd (LintWorkflow lt w) \<noteq> None"
    by (simp add: failing_orchestrator_def en failing_linter_def)
  from Lint_fail_fast [of failing_orchestrator example_config "\<lambda>k xs. xs" example_env] h1 h2 h3
  have a: "\<exists>w name lt issues err.
            w \<in> set (workflows failing_orchestrator) \<and>
            (name, lt) \<in> set (linters failing_orchestrator) \<and>
            IsLinterEnabled example_config name \<and>
            LintWorkflow lt w = (issues, Some err) \<and>
            Lint example_env (\<lambda>k xs. xs) failing_orchestrator =
              (Inl (ErrorWrap (''linter '' @ name @ '' failed on '' @ wfFile w @ '': '') err),
               failing_orchestrator)"
    by blast
  have b: "Lint example_env (\<lambda>k xs. xs) failing_orchestrator =
       (Inl (ErrorWrap ''linter versions failed on .github/workflows/ci.yml: ''
              (ErrorNew ''failed to find actions'')), failing_orchestrator)"
    by (simp add: Lint_def failing_orchestrator_def en failing_linter_def reporting_linter_def
        example_workflow_def LinterVersions_def LinterPermissions_def)
  have h4: "cfg passing_orchestrator = Some example_config"
    by (simp add: passing_orchestrator_def)
  have h5: "\<forall>k. set ((\<lambda>k xs. xs) k (linters passing_orchestrator)) = set (linters passing_orchestrator)"
    by simp
  have h6: "\<forall>w \<in> set (workflows passing_orchestrator). \<forall>(name, lt) \<in> set (linters passing_orchestrator).
           IsLinterEnabled example_config name \<longrightarrow> snd (LintWorkflow lt w) = None"
    by (simp add: passing_orchestrator_def reporting_linter_def)
  from Lint_fail_fast [of passing_orchestrator example_config "\<lambda>k xs. xs" example_env] h4 h5 h6
  have c: "\<exists>out. Lint example_env (\<lambda>k xs. xs) passing_orchestrator = (Inr out, passing_orchestrator) \<and>
            (\<forall>i \<in> set out. \<exists>w \<in> set (workflows passing_orchestrator).
               \<exists>(name, lt) \<in> set (linters passing_orchestrator).
               IsLinterEnabled example_config name \<and> Linter i = name \<and>
               (\<exists>i0 \<in> set (fst (LintWorkflow lt w)). i = i0\<lparr>Linter := name\<rparr>))"
    by blast
  have d: "Lint example_env (\<lambda>k xs. xs) passing_orchestrator =
       (Inr [\<lparr>File = ''ci.yml'', Line = 0, Linter = ''permissions'',
              Message = ''Workflow is missing permissions configuration''\<rparr>],
        passing_orchestrator)"
    by (simp add: Lint_def passing_orchestrator_def en reporting_linter_def
        example_workflow_def LinterPermissions_def)
  from h1 h2 h3 a b h4 c d show ?thesis by blast
qed

section \<open>Rewriting an action reference\<close>


lemma HasPrefix_iff: "HasPrefix s p \<longleftrightarrow> (\<exists>post. s = p @ post)"
proof
  assume "HasPrefix s p"
  then have "s = p @ drop (length p) s"
    unfolding HasPrefix_def by (metis append_take_drop_id)
  then show "\<exists>post. s = p @ post" ..
next
  assume "\<exists>post. s = p @ post"
  then show "HasPrefix s p" by (auto simp: HasPrefix_def)
qed

lemma Index_ge: "- 1 \<le> Index s sub"
  by (induction s) (auto simp: Let_def)

lemma Index_le: "Index s sub \<le> int (length s)"
  by (induction s) (auto simp: Let_def)

lemma Index_found:
  "Index s sub = i \<Longrightarrow> 0 \<le> i \<Longrightarrow>
   s = take (nat i) s @ sub @ drop (nat i + length sub) s \<and>
   (\<forall>pre post. s = pre @ sub @ post \<longrightarrow> nat i \<le> length pre)"
proof (induction s arbitrary: i)
  case Nil
  then show ?case by (auto split: if_splits)
next
  case (Cons c cs)
  show ?case
  proof (cases "HasPrefix (c # cs) sub")
    case True
    with Cons.prems have "i = 0" by simp
    moreover from True have "c # cs = sub @ drop (length sub) (c # cs)"
      unfolding HasPrefix_def by (metis append_take_drop_id)
    ultimately show ?thesis by simp
  next
    case False
    let ?j = "Index cs sub"
    from False Cons.prems have j: "0 \<le> ?j" "i = ?j + 1"
      by (auto simp: Let_def split: if_splits)
    from Cons.IH [OF refl j(1)]
    have dec: "cs = take (nat ?j) cs @ sub @ drop (nat ?j + length sub) cs"
      and least: "\<forall>pre post. cs = pre @ sub @ post \<longrightarrow> nat ?j \<le> length pre"
      by blast+
    have ni: "nat i = Suc (nat ?j)" using j by simp
    have "c # cs = take (nat i) (c # cs) @ sub @ drop (nat i + length sub) (c # cs)"
      using dec by (simp add: ni)
    moreover have "nat i \<le> length pre" if "c # cs = pre @ sub @ post" for pre post
    proof (cases pre)
      case Nil
      with that have "HasPrefix (c # cs) sub" by (auto simp: HasPrefix_iff)
      with False show ?thesis by simp
    next
      case (Cons a pre')
      with that have "cs = pre' @ sub @ post" by simp
      with least have "nat ?j \<le> length pre'" by blast
      with Cons ni show ?thesis by simp
    qed
    ultimately show ?thesis by blast
  qed
qed

lemma Index_none: "Index s sub < 0 \<Longrightarrow> \<not> occurs_in sub s"
proof (induction s)
  case Nil
  then show ?case by (auto simp: occurs_in_def split: if_splits)
next
  case (Cons c cs)
  from Cons.prems have np: "\<not> HasPrefix (c # cs) sub" and "Index cs sub < 0"
    by (auto simp: Let_def split: if_splits)
  with Cons.IH have no: "\<not> occurs_in sub cs" by simp
  show ?case
  proof
    assume "occurs_in sub (c # cs)"
    then obtain pre post where d: "c # cs = pre @ sub @ post" by (auto simp: occurs_in_def)
    show False
    proof (cases pre)
      case Nil
      with d np show False by (auto simp: HasPrefix_iff)
    next
      case (Cons a pre')
      with d have "cs = pre' @ sub @ post" by simp
      with no show False by (auto simp: occurs_in_def)
    qed
  qed
qed

lemma Contains_iff: "Contains s sub \<longleftrightarrow> occurs_in sub s"
proof
  assume "Contains s sub"
  then have "0 \<le> Index s sub" by (simp add: Contains_def)
  from Index_found [OF refl this] show "occurs_in sub s"
    unfolding occurs_in_def by blast
next
  assume "occurs_in sub s"
  with Index_none [of s sub] show "Contains s sub"
    unfolding Contains_def by fastforce
qed

lemma update_line_spec:
  assumes "occurs_in oldUses line"
  shows "\<exists>pre post body. line = pre @ oldUses @ post \<and>
           (\<forall>pre' post'. line = pre' @ oldUses @ post' \<longrightarrow> length pre \<le> length pre') \<and>
           comment_stripped (pre @ newUses @ post) body \<and>
           update_line oldUses newUses comment line =
             TrimRight body [CHR '' '', CHR 0x09] @ (if comment = [] then [] else '' # '' @ comment)"
proof -
  let ?i = "Index line oldUses"
  from assms have i: "0 \<le> ?i" using Contains_iff [of line oldUses] by (simp add: Contains_def)
  let ?pre = "take (nat ?i) line" and ?post = "drop (nat ?i + length oldUses) line"
  from Index_found [OF refl i]
  have dec: "line = ?pre @ oldUses @ ?post"
    and least: "\<forall>pre' post'. line = pre' @ oldUses @ post' \<longrightarrow> nat ?i \<le> length pre'"
    by blast+
  have lp: "length ?pre = nat ?i"
    using Index_le [of line oldUses] i by simp
  define new where "new = ?pre @ newUses @ ?post"
  have rep: "Replace1 line oldUses newUses = new"
    using i by (simp add: Replace1_def Let_def new_def)
  define k where "k = Index new '' #''"
  define body where "body = (if k \<noteq> - 1 then take (nat k) new else new)"
  have cs: "comment_stripped new body"
  proof (cases "0 \<le> k")
    case True
    from Index_found [OF k_def [symmetric] True]
    have d2: "new = take (nat k) new @ '' #'' @ drop (nat k + length '' #'') new"
      and l2: "\<forall>pre post. new = pre @ '' #'' @ post \<longrightarrow> nat k \<le> length pre"
      by blast+
    have lk: "length (take (nat k) new) = nat k"
      using Index_le [of new "'' #''"] True by (simp add: k_def)
    have b: "body = take (nat k) new" using True by (simp add: body_def)
    have "\<not> occurs_in '' #'' body"
    proof
      assume "occurs_in '' #'' body"
      then obtain a b' where ab: "take (nat k) new = a @ '' #'' @ b'"
        by (auto simp: occurs_in_def b)
      have "new = (a @ '' #'' @ b') @ '' #'' @ drop (nat k + length '' #'') new"
        by (subst (1) d2, subst ab) (rule refl)
      then have "new = a @ '' #'' @ (b' @ '' #'' @ drop (nat k + length '' #'') new)"
        by simp
      with l2 have "nat k \<le> length a" by blast
      moreover from arg_cong [OF ab, of length] lk have "nat k = length a + 2 + length b'"
        by simp
      ultimately show False by simp
    qed
    moreover have "new = body @ '' #'' @ drop (nat k + length '' #'') new"
      unfolding b by (rule d2)
    ultimately show ?thesis
      unfolding comment_stripped_def by blast
  next
    case False
    with Index_ge [of new "'' #''"] have k: "k = - 1" by (simp add: k_def)
    from False Index_none [of new "'' #''"] have "\<not> occurs_in '' #'' new" by (simp add: k_def)
    with k show ?thesis unfolding comment_stripped_def body_def by simp
  qed
  have ul: "update_line oldUses newUses comment line =
             TrimRight body [CHR '' '', CHR 0x09] @ (if comment = [] then [] else '' # '' @ comment)"
    unfolding update_line_def rep Let_def body_def k_def by simp
  show ?thesis
  proof (intro exI conjI)
    show "line = ?pre @ oldUses @ ?post" by (rule dec)
    show "\<forall>pre' post'. line = pre' @ oldUses @ post' \<longrightarrow> length ?pre \<le> length pre'"
      using least lp by simp
    show "comment_stripped (?pre @ newUses @ ?post) body" using cs by (simp only: new_def)
    show "update_line oldUses newUses comment line =
             TrimRight body [CHR '' '', CHR 0x09] @ (if comment = [] then [] else '' # '' @ comment)"
      by (rule ul)
  qed
qed

lemma update_loop_spec:
  "update_loop oldUses newUses comment lines updated =
     (map (\<lambda>line. if Contains line oldUses then update_line oldUses newUses comment line
                   else line) lines,
      updated \<or> (\<exists>line \<in> set lines. Contains line oldUses))"
  by (induction lines arbitrary: updated) auto


text \<open>
  C7. When \<open>oldUses\<close> occurs in no line of the raw content, \<open>UpdateActionUses\<close> returns
  the error "action ... not found" and leaves the workflow, its raw bytes included, and
  the file system as they were. When \<open>oldUses\<close> occurs in some line, the raw bytes
  become the lines joined again, and the file is written with them; the lines without
  \<open>oldUses\<close> are unchanged; in each line with \<open>oldUses\<close> the first occurrence is
  replaced by \<open>newUses\<close>, the result is cut before its first \<open>" #"\<close>, trailing spaces
  and tabs are trimmed, and \<open>" # "\<close> with the comment is appended when the comment is
  not empty.
\<close>

theorem UpdateActionUses_spec:
  "((\<forall>line \<in> set (Lines w). \<not> occurs_in oldUses line) \<longrightarrow>
      UpdateActionUses writeFile fs w oldUses newUses comment =
        (Some (ErrorNew (''action '' @ oldUses @ '' not found'')), w, fs))
   \<and> ((\<exists>line \<in> set (Lines w). occurs_in oldUses line) \<longrightarrow>
      (\<exists>lines'.
         UpdateActionUses writeFile fs w oldUses newUses comment =
           (fst (writeFile fs (wfFile w) (Join_newline lines')),
            w\<lparr>RawBytes := Join_newline lines', node := None\<rparr>,
            snd (writeFile fs (wfFile w) (Join_newline lines'))) \<and>
         length lines' = length (Lines w) \<and>
         (\<forall>i < length (Lines w).
            (\<not> occurs_in oldUses (Lines w ! i) \<longrightarrow> lines' ! i = Lines w ! i) \<and>
            (occurs_in oldUses (Lines w ! i) \<longrightarrow>
               (\<exists>pre post body.
                  Lines w ! i = pre @ oldUses @ post \<and>
                  (\<forall>pre' post'. Lines w ! i = pre' @ oldUses @ post' \<longrightarrow>
                     length pre \<le> length pre') \<and>
                  comment_stripped (pre @ newUses @ post) body \<and>
                  lines' ! i =
                    TrimRight body [CHR '' '', CHR 0x09] @
                    (if comment = [] then [] else '' # '' @ comment))))))"
proof (intro conjI impI)
  assume "\<forall>line \<in> set (Lines w). \<not> occurs_in oldUses line"
  then have "\<not> (\<exists>line \<in> set (Split_newline (RawBytes w)). Contains line oldUses)"
    by (simp add: Contains_iff Lines_def)
  then show "UpdateActionUses writeFile fs w oldUses newUses comment =
        (Some (ErrorNew (''action '' @ oldUses @ '' not found'')), w, fs)"
    by (simp add: UpdateActionUses_def update_loop_spec)
next
  assume "\<exists>line \<in> set (Lines w). occurs_in oldUses line"
  then have found: "\<exists>line \<in> set (Split_newline (RawBytes w)). Contains line oldUses"
    by (simp add: Contains_iff Lines_def)
  define lines' where "lines' =
    map (\<lambda>line. if Contains line oldUses then update_line oldUses newUses comment line
                 else line) (Lines w)"
  have res: "UpdateActionUses writeFile fs w oldUses newUses comment =
           (fst (writeFile fs (wfFile w) (Join_newline lines')),
            w\<lparr>RawBytes := Join_newline lines', node := None\<rparr>,
            snd (writeFile fs (wfFile w) (Join_newline lines')))"
    using found
    by (simp add: UpdateActionUses_def update_loop_spec lines'_def Lines_def invalidateNode_def
        Let_def split: prod.splits)
  have len: "length lines' = length (Lines w)" by (simp add: lines'_def)
  have each: "(\<not> occurs_in oldUses (Lines w ! i) \<longrightarrow> lines' ! i = Lines w ! i) \<and>
            (occurs_in oldUses (Lines w ! i) \<longrightarrow>
               (\<exists>pre post body.
                  Lines w ! i = pre @ oldUses @ post \<and>
                  (\<forall>pre' post'. Lines w ! i = pre' @ oldUses @ post' \<longrightarrow>
                     length pre \<le> length pre') \<and>
                  comment_stripped (pre @ newUses @ post) body \<and>
                  lines' ! i =
                    TrimRight body [CHR '' '', CHR 0x09] @
                    (if comment = [] then [] else '' # '' @ comment)))"
    if "i < length (Lines w)" for i
  proof (cases "occurs_in oldUses (Lines w ! i)")
    case True
    then have "lines' ! i = update_line oldUses newUses comment (Lines w ! i)"
      using that by (simp add: lines'_def Contains_iff)
    with update_line_spec [OF True, of newUses comment] True show ?thesis by simp
  next
    case False
    then show ?thesis using that by (simp add: lines'_def Contains_iff)
  qed
  from res len each
  show "\<exists>lines'.
         UpdateActionUses writeFile fs w oldUses newUses comment =
           (fst (writeFile fs (wfFile w) (Join_newline lines')),
            w\<lparr>RawBytes := Join_newline lines', node := None\<rparr>,
            snd (writeFile fs (wfFile w) (Join_newline lines'))) \<and>
         length lines' = length (Lines w) \<and>
         (\<forall>i < length (Lines w).
            (\<not> occurs_in oldUses (Lines w ! i) \<longrightarrow> lines' ! i = Lines w ! i) \<and>
            (occurs_in oldUses (Lines w ! i) \<longrightarrow>
               (\<exists>pre post body.
                  Lines w ! i = pre @ oldUses @ post \<and>
                  (\<forall>pre' post'. Lines w ! i = pre' @ oldUses @ post' \<longrightarrow>
                     length pre \<le> length pre') \<and>
                  comment_stripped (pre @ newUses @ post) body \<and>
                  lines' ! i =
                    TrimRight body [CHR '' '', CHR 0x09] @
                    (if comment = [] then [] else '' # '' @ comment))))"
    by blast
qed



lemma steps_lines:
  "Lines steps_workflow = [''steps:'', ''  - uses: actions/checkout@v3  # pin me'', ''  - run: make'']"
  by (simp add: Lines_def steps_workflow_def)

lemma steps_contains:
  "\<not> Contains ''steps:'' ''actions/checkout@v3''"
  "Contains ''  - uses: actions/checkout@v3  # pin me'' ''actions/checkout@v3''"
  "\<not> Contains ''  - run: make'' ''actions/checkout@v3''"
  "\<not> Contains ''steps:'' ''actions/setup-go@v4''"
  "\<not> Contains ''  - uses: actions/checkout@v3  # pin me'' ''actions/setup-go@v4''"
  "\<not> Contains ''  - run: make'' ''actions/setup-go@v4''"
  by (simp_all add: Contains_def HasPrefix_def Let_def)

lemma steps_update_line:
  "update_line ''actions/checkout@v3'' ''actions/checkout@b4ff'' ''v3.5.0''
     ''  - uses: actions/checkout@v3  # pin me'' = ''  - uses: actions/checkout@b4ff # v3.5.0''"
  by (simp add: update_line_def Replace1_def HasPrefix_def Let_def TrimRight_def)

theorem UpdateActionUses_spec_witness:
  "\<not> (\<exists>line \<in> set (Lines steps_workflow). occurs_in ''actions/setup-go@v4'' line)
   \<and> UpdateActionUses write_to_map Map.empty steps_workflow
        ''actions/setup-go@v4'' ''actions/setup-go@abcd'' ''v4.0.1'' =
       (Some (ErrorNew ''action actions/setup-go@v4 not found''), steps_workflow, Map.empty)
   \<and> (\<exists>line \<in> set (Lines steps_workflow). occurs_in ''actions/checkout@v3'' line)
   \<and> (\<exists>lines'.
         UpdateActionUses write_to_map Map.empty steps_workflow
             ''actions/checkout@v3'' ''actions/checkout@b4ff'' ''v3.5.0'' =
           (fst (write_to_map Map.empty (wfFile steps_workflow) (Join_newline lines')),
            steps_workflow\<lparr>RawBytes := Join_newline lines', node := None\<rparr>,
            snd (write_to_map Map.empty (wfFile steps_workflow) (Join_newline lines'))) \<and>
         length lines' = length (Lines steps_workflow))
   \<and> UpdateActionUses write_to_map Map.empty steps_workflow
        ''actions/checkout@v3'' ''actions/checkout@b4ff'' ''v3.5.0'' =
       (None,
        steps_workflow\<lparr>RawBytes := ''steps:'' @ [CHR 0x0A] @
             ''  - uses: actions/checkout@b4ff # v3.5.0'' @ [CHR 0x0A] @ ''  - run: make'',
           node := None\<rparr>,
        [''ci.yml'' \<mapsto> ''steps:'' @ [CHR 0x0A] @
             ''  - uses: actions/checkout@b4ff # v3.5.0'' @ [CHR 0x0A] @ ''  - run: make''])"
proof -
  have h1: "\<forall>line \<in> set (Lines steps_workflow). \<not> occurs_in ''actions/setup-go@v4'' line"
    by (simp add: steps_lines steps_contains Contains_iff [symmetric])
  have h2: "\<exists>line \<in> set (Lines steps_workflow). occurs_in ''actions/checkout@v3'' line"
    by (simp add: steps_lines steps_contains Contains_iff [symmetric])
  from UpdateActionUses_spec [of steps_workflow "''actions/setup-go@v4''" write_to_map Map.empty
      "''actions/setup-go@abcd''" "''v4.0.1''"] h1
  have a: "UpdateActionUses write_to_map Map.empty steps_workflow
        ''actions/setup-go@v4'' ''actions/setup-go@abcd'' ''v4.0.1'' =
       (Some (ErrorNew ''action actions/setup-go@v4 not found''), steps_workflow, Map.empty)"
    by simp
  from UpdateActionUses_spec [of steps_workflow "''actions/checkout@v3''" write_to_map Map.empty
      "''actions/checkout@b4ff''" "''v3.5.0''"] h2
  have b: "\<exists>lines'.
         UpdateActionUses write_to_map Map.empty steps_workflow
             ''actions/checkout@v3'' ''actions/checkout@b4ff'' ''v3.5.0'' =
           (fst (write_to_map Map.empty (wfFile steps_workflow) (Join_newline lines')),
            steps_workflow\<lparr>RawBytes := Join_newline lines', node := None\<rparr>,
            snd (write_to_map Map.empty (wfFile steps_workflow) (Join_newline lines'))) \<and>
         length lines' = length (Lines steps_workflow)"
    by blast
  have c: "UpdateActionUses write_to_map Map.empty steps_workflow
        ''actions/checkout@v3'' ''actions/checkout@b4ff'' ''v3.5.0'' =
       (None,
        steps_workflow\<lparr>RawBytes := ''steps:'' @ [CHR 0x0A] @
             ''  - uses: actions/checkout@b4ff # v3.5.0'' @ [CHR 0x0A] @ ''  - run: make'',
           node := None\<rparr>,
        [''ci.yml'' \<mapsto> ''steps:'' @ [CHR 0x0A] @
             ''  - uses: actions/checkout@b4ff # v3.5.0'' @ [CHR 0x0A] @ ''  - run: make''])"
    using steps_lines
    by (simp add: UpdateActionUses_def update_loop_spec Lines_def steps_contains
        steps_update_line invalidateNode_def write_to_map_def)
       (simp add: steps_workflow_def)
  from h1 a h2 b c show ?thesis by blast
qed

section \<open>The format fixer is idempotent\<close>


lemma TrimRight_idem: "TrimRight (TrimRight s cs) cs = TrimRight s cs"
proof -
  have "dropWhile P (dropWhile P xs) = dropWhile P xs" for P and xs :: string
    by (metis dropWhile_eq_Nil_conv dropWhile_idem)
  then show ?thesis by (simp add: TrimRight_def)
qed

lemma TrimRight_last: "TrimRight s cs \<noteq> [] \<Longrightarrow> last (TrimRight s cs) \<notin> set cs"
proof -
  assume a: "TrimRight s cs \<noteq> []"
  let ?d = "dropWhile (\<lambda>c. c \<in> set cs) (rev s)"
  from a have "?d \<noteq> []" by (simp add: TrimRight_def)
  then have "hd ?d \<notin> set cs" using hd_dropWhile by blast
  with \<open>?d \<noteq> []\<close> show ?thesis by (simp add: TrimRight_def last_rev)
qed

lemma TrimRight_fixed: "s = [] \<or> last s \<notin> set cs \<Longrightarrow> TrimRight s cs = s"
proof (cases s rule: rev_cases)
  case Nil
  then show ?thesis by (simp add: TrimRight_def)
next
  case (snoc ys y)
  assume "s = [] \<or> last s \<notin> set cs"
  with snoc show ?thesis by (simp add: TrimRight_def)
qed

lemma set_TrimRight: "set (TrimRight s cs) \<subseteq> set s"
  unfolding TrimRight_def using set_dropWhileD by fastforce

lemma set_TrimLeft: "set (TrimLeft s cs) \<subseteq> set s"
  unfolding TrimLeft_def using set_dropWhileD by fastforce

lemma TrimLeft_keeps_last:
  "s \<noteq> [] \<Longrightarrow> last s \<notin> set cs \<Longrightarrow> TrimLeft s cs \<noteq> [] \<and> last (TrimLeft s cs) = last s"
proof -
  assume a: "s \<noteq> []" "last s \<notin> set cs"
  let ?P = "\<lambda>c. c \<in> set cs"
  have ne: "dropWhile ?P s \<noteq> []"
    using a by (metis dropWhile_eq_Nil_conv last_in_set)
  have "s = takeWhile ?P s @ dropWhile ?P s" by simp
  then have "last s = last (dropWhile ?P s)" using ne by (metis last_appendR)
  with ne show ?thesis by (simp add: TrimLeft_def)
qed

lemma TrimLeft_head: "TrimLeft s cs \<noteq> [] \<Longrightarrow> hd (TrimLeft s cs) \<notin> set cs"
  unfolding TrimLeft_def using hd_dropWhile by blast

lemma TrimSpace_Nil: "TrimSpace [] = []"
  by (simp add: TrimSpace_def trim_space_left.simps [of "[]"] trim_space_right.simps [of "[]"])

lemma countLeadingSpaces_nonneg: "0 \<le> countLeadingSpaces line"
proof -
  have "length (dropWhile P line) \<le> length line" for P :: "char \<Rightarrow> bool"
    by (rule length_dropWhile_le)
  then show ?thesis by (simp add: countLeadingSpaces_def TrimLeft_def)
qed

lemma countLeadingSpaces_indented:
  assumes "t = [] \<or> hd t \<noteq> CHR '' ''"
  shows "countLeadingSpaces (replicate n (CHR '' '') @ t) = int n"
proof -
  have "dropWhile (\<lambda>c. c = CHR '' '') (replicate n (CHR '' '') @ t) = t"
    using assms by (induction n) (auto simp: dropWhile_append3 intro: dropWhile_eq_self_iff [THEN iffD2])
  then show ?thesis by (simp add: countLeadingSpaces_def TrimLeft_def)
qed

lemma Repeat_space: "0 \<le> n \<Longrightarrow> Repeat '' '' n = Some (replicate (nat n) (CHR '' ''))"
proof -
  have "concat (replicate k '' '') = replicate k (CHR '' '')" for k
    by (induction k) auto
  then show "0 \<le> n \<Longrightarrow> Repeat '' '' n = Some (replicate (nat n) (CHR '' ''))"
    by (simp add: Repeat_def)
qed



lemma fixIndentation_total:
  "0 \<le> p \<Longrightarrow> \<exists>x. fixIndentation settings l p = Some x"
  by (auto simp: fixIndentation_def Let_def Repeat_def split: option.splits)

lemma fixIndentation_set:
  "fixIndentation settings l p = Some x \<Longrightarrow> set x \<subseteq> insert (CHR '' '') (set l)"
proof -
  assume a: "fixIndentation settings l p = Some x"
  have t: "set (TrimLeft l [CHR '' '', CHR 0x09]) \<subseteq> set l" by (rule set_TrimLeft)
  have r: "set sp \<subseteq> {CHR '' ''}" if "Repeat '' '' n = Some sp" for n sp
    using that by (auto simp: Repeat_def split: if_splits)
  from a show ?thesis
    unfolding fixIndentation_def Let_def
    using t by (auto split: option.splits if_splits dest!: r)
qed

lemma fixIndentation_stable:
  assumes fx: "fixIndentation settings l p = Some x"
    and trimmed: "l = [] \<or> last l \<notin> set [CHR '' '', CHR 0x09]"
    and p: "0 \<le> p"
  shows "TrimRight x [CHR '' '', CHR 0x09] = x \<and> fixIndentation settings x p = Some x"
proof (cases "x = l")
  case True
  with fx trimmed show ?thesis by (simp add: TrimRight_fixed)
next
  case False
  with fx obtain s where s: "settings = Some s" "0 < IndentWidth s" "\<not> IsBlankOrComment l"
    "\<not> countLeadingSpaces l - p \<le> IndentWidth s"
    unfolding fixIndentation_def Let_def by (auto split: option.splits if_splits)
  let ?t = "TrimLeft l [CHR '' '', CHR 0x09]"
  let ?n = "nat (p + IndentWidth s)"
  from s(2) p have nn: "0 \<le> p + IndentWidth s" by simp
  from fx False s Repeat_space [OF nn] have x: "x = replicate ?n (CHR '' '') @ ?t"
    unfolding fixIndentation_def Let_def by (auto split: if_splits)
  from s(3) have "l \<noteq> []" by (auto simp: IsBlankOrComment_def TrimSpace_Nil)
  with trimmed have l: "l \<noteq> []" "last l \<notin> set [CHR '' '', CHR 0x09]" by auto
  from TrimLeft_keeps_last [OF l] have t: "?t \<noteq> []" "last ?t = last l" by simp_all
  from TrimLeft_head [OF t(1)] have hd: "hd ?t \<noteq> CHR '' ''" by auto
  have "last x = last l" using x t by simp
  with l(2) have tr: "TrimRight x [CHR '' '', CHR 0x09] = x"
    by (intro TrimRight_fixed) simp
  have cl: "countLeadingSpaces x = p + IndentWidth s"
    unfolding x using countLeadingSpaces_indented [of ?t ?n] hd nn by simp
  have "fixIndentation settings x p = Some x"
    unfolding fixIndentation_def Let_def using s(1,2) cl by simp
  with tr show ?thesis by simp
qed

lemma fixLines_loop_acc:
  "fixLines_loop settings ls fixed b p =
     map_option ((@) fixed) (fixLines_loop settings ls [] b p)"
proof (induction ls arbitrary: fixed b p)
  case Nil
  then show ?case by simp
next
  case (Cons line0 rest)
  show ?case
  proof (cases "fixIndentation settings (TrimRight line0 [CHR '' '', CHR 0x09]) p")
    case None
    then show ?thesis by simp
  next
    case (Some x)
    show ?thesis
      using Some Cons.IH [of "fixed @ [x]"] Cons.IH [of "[x]"] Cons.IH [of fixed]
      by (simp add: option.map_comp comp_def)
  qed
qed

lemma fixLines_loop_total:
  "0 \<le> p \<Longrightarrow> \<exists>out. fixLines_loop settings ls fixed b p = Some out"
proof (induction ls arbitrary: fixed b p)
  case Nil
  then show ?case by simp
next
  case (Cons line0 rest)
  from fixIndentation_total [OF Cons.prems]
  obtain x where x: "fixIndentation settings (TrimRight line0 [CHR '' '', CHR 0x09]) p = Some x"
    by blast
  show ?case
    using x Cons.IH [OF Cons.prems] Cons.IH [OF countLeadingSpaces_nonneg]
    by simp
qed

text \<open>One step of the loop on a line that the loop itself has produced.\<close>

lemma fixLines_loop_step:
  assumes "fixIndentation settings (TrimRight line0 [CHR '' '', CHR 0x09]) p = Some x"
    and "0 \<le> p"
  shows "fixLines_loop settings (x # ys) [] b p =
     (if TrimSpace x = []
      then map_option ((@) (if \<not> b then [x] else [])) (fixLines_loop settings ys [] True p)
      else map_option ((@) [x]) (fixLines_loop settings ys [] False (countLeadingSpaces x)))"
proof -
  have "TrimRight line0 [CHR '' '', CHR 0x09] = [] \<or>
        last (TrimRight line0 [CHR '' '', CHR 0x09]) \<notin> set [CHR '' '', CHR 0x09]"
    using TrimRight_last [of line0 "[CHR '' '', CHR 0x09]"] by blast
  from fixIndentation_stable [OF assms(1) this assms(2)]
  have st: "TrimRight x [CHR '' '', CHR 0x09] = x" "fixIndentation settings x p = Some x"
    by simp_all
  show ?thesis
    using st fixLines_loop_acc [of settings ys "[x]"] fixLines_loop_acc [of settings ys "[]"]
    by simp
qed


lemma removeTrailingEmpty_Nil: "removeTrailingEmpty [] = []"
  by (subst removeTrailingEmpty.simps) simp

lemma removeTrailingEmpty_snoc:
  "removeTrailingEmpty (xs @ [x]) =
     (if TrimSpace x = [] then removeTrailingEmpty xs else xs @ [x])"
  by (subst removeTrailingEmpty.simps) simp

lemma removeTrailingEmpty_rev:
  "removeTrailingEmpty xs = rev (dropWhile (\<lambda>l. TrimSpace l = []) (rev xs))"
  by (induction xs rule: rev_induct) (simp_all add: removeTrailingEmpty_snoc removeTrailingEmpty_Nil)

lemma removeTrailingEmpty_Cons:
  "removeTrailingEmpty (x # ys) =
     (if removeTrailingEmpty ys = [] then (if TrimSpace x = [] then [] else [x])
      else x # removeTrailingEmpty ys)"
  unfolding removeTrailingEmpty_rev
  by (simp add: dropWhile_append)

lemma removeTrailingEmpty_blank:
  "TrimSpace x = [] \<Longrightarrow> removeTrailingEmpty r = [] \<Longrightarrow> removeTrailingEmpty (x # r) = []"
  by (subst removeTrailingEmpty_Cons) simp

lemma removeTrailingEmpty_keep:
  "removeTrailingEmpty r \<noteq> [] \<or> TrimSpace x \<noteq> [] \<Longrightarrow>
   removeTrailingEmpty (x # r) = x # removeTrailingEmpty r"
  by (subst removeTrailingEmpty_Cons) auto

lemma removeTrailingEmpty_empty_line: "removeTrailingEmpty [[]] = []"
  by (rule removeTrailingEmpty_blank) (simp_all add: TrimSpace_Nil removeTrailingEmpty_Nil)

lemma set_removeTrailingEmpty: "set (removeTrailingEmpty xs) \<subseteq> set xs"
  unfolding removeTrailingEmpty_rev using set_dropWhileD by fastforce

lemma fixIndentation_Nil: "fixIndentation settings [] p = Some []"
  by (simp add: fixIndentation_def IsBlankOrComment_def TrimSpace_Nil split: option.splits)

lemma fixLines_loop_empty_line:
  "fixLines_loop settings [[]] [] b p = Some (if \<not> b then [[]] else [])"
  by (simp add: TrimRight_def fixIndentation_Nil TrimSpace_Nil)

text \<open>
  The loop run again over its own output, cut of its trailing empty lines and followed
  by the empty line that the final newline gives, ends in the same lines.
\<close>

lemma fixLines_loop_again:
  "0 \<le> p \<Longrightarrow> fixLines_loop settings ls [] b p = Some out \<Longrightarrow>
   \<exists>out2. fixLines_loop settings (removeTrailingEmpty out @ [[]]) [] b p = Some out2 \<and>
          removeTrailingEmpty out2 = removeTrailingEmpty out"
proof (induction ls arbitrary: b p out)
  case Nil
  then have o: "out = []" by simp
  have "removeTrailingEmpty (if \<not> b then [[]] else []) = []"
    by (cases b) (simp_all only: removeTrailingEmpty_empty_line removeTrailingEmpty_Nil
        if_True if_False not_True_eq_False not_False_eq_True)
  then show ?case
    unfolding o removeTrailingEmpty_Nil append_Nil fixLines_loop_empty_line by blast
next
  case (Cons line0 rest)
  from fixIndentation_total [OF Cons.prems(1)]
  obtain x where x: "fixIndentation settings (TrimRight line0 [CHR '' '', CHR 0x09]) p = Some x"
    by blast
  note step = fixLines_loop_step [OF x Cons.prems(1)]
  show ?case
  proof (cases "TrimSpace x = []")
    case blank: True
    obtain r where r: "fixLines_loop settings rest [] True p = Some r"
      using fixLines_loop_total [OF Cons.prems(1)] by blast
    from Cons.IH [OF Cons.prems(1) r] obtain r2 where
      r2: "fixLines_loop settings (removeTrailingEmpty r @ [[]]) [] True p = Some r2"
        "removeTrailingEmpty r2 = removeTrailingEmpty r" by blast
    show ?thesis
    proof (cases b)
      case True
      with Cons.prems(2) x blank r have o: "out = r"
        by simp
      from True have bT: "b = True" by simp
      show ?thesis unfolding o bT using r2 by blast
    next
      case False
      with Cons.prems(2) x blank r have out: "out = x # r"
        using fixLines_loop_acc [of settings rest "[x]" True p] by simp
      from False have bF: "b = False" by simp
      show ?thesis
      proof (cases "removeTrailingEmpty r = []")
        case True
        have ro: "removeTrailingEmpty out = []"
          unfolding out using blank True by (rule removeTrailingEmpty_blank)
        show ?thesis
          unfolding ro append_Nil fixLines_loop_empty_line bF
          using removeTrailingEmpty_empty_line by (simp only: not_False_eq_True if_True) blast
      next
        case ne: False
        have ro: "removeTrailingEmpty out = x # removeTrailingEmpty r"
          unfolding out using ne by (intro removeTrailingEmpty_keep) simp
        have "fixLines_loop settings (x # (removeTrailingEmpty r @ [[]])) [] b p = Some (x # r2)"
          by (subst step) (simp add: blank False r2(1))
        moreover have "removeTrailingEmpty (x # r2) = x # removeTrailingEmpty r"
          using ne r2(2) removeTrailingEmpty_keep [of r2 x] by simp
        ultimately show ?thesis
          unfolding ro append_Cons by blast
      qed
    qed
  next
    case nonblank: False
    have p': "0 \<le> countLeadingSpaces x" by (rule countLeadingSpaces_nonneg)
    obtain r where r: "fixLines_loop settings rest [] False (countLeadingSpaces x) = Some r"
      using fixLines_loop_total [OF p'] by blast
    from Cons.IH [OF p' r] obtain r2 where
      r2: "fixLines_loop settings (removeTrailingEmpty r @ [[]]) [] False (countLeadingSpaces x)
             = Some r2"
        "removeTrailingEmpty r2 = removeTrailingEmpty r" by blast
    from Cons.prems(2) x nonblank r have out: "out = x # r"
      using fixLines_loop_acc [of settings rest "[x]" False "countLeadingSpaces x"] by simp
    have ro: "removeTrailingEmpty out = x # removeTrailingEmpty r"
      unfolding out using nonblank by (intro removeTrailingEmpty_keep) simp
    have "fixLines_loop settings (x # (removeTrailingEmpty r @ [[]])) [] b p = Some (x # r2)"
      by (subst step) (simp add: nonblank r2(1))
    moreover have "removeTrailingEmpty (x # r2) = x # removeTrailingEmpty r"
      using nonblank r2(2) removeTrailingEmpty_keep [of r2 x] by simp
    ultimately show ?thesis
      unfolding ro append_Cons by blast
  qed
qed



lemma Split_newline_no_newline:
  "CHR 0x0A \<notin> set l \<Longrightarrow> Split_newline (l @ CHR 0x0A # rest) = l # Split_newline rest"
  by (induction l) auto

lemma Split_newline_single: "CHR 0x0A \<notin> set l \<Longrightarrow> Split_newline l = [l]"
  by (induction l) auto

lemma Split_newline_lines: "l \<in> set (Split_newline s) \<Longrightarrow> CHR 0x0A \<notin> set l"
proof (induction s arbitrary: l)
  case Nil
  then show ?case by simp
next
  case (Cons c cs)
  show ?case
  proof (cases "c = CHR 0x0A")
    case True
    with Cons show ?thesis by auto
  next
    case False
    obtain a as where s: "Split_newline cs = a # as"
      by (cases "Split_newline cs") (cases cs, auto split: if_splits list.splits)
    with Cons False show ?thesis by auto
  qed
qed

lemma Split_Join_newline:
  "ls \<noteq> [] \<Longrightarrow> \<forall>l \<in> set ls. CHR 0x0A \<notin> set l \<Longrightarrow>
   Split_newline (Join_newline ls @ [CHR 0x0A]) = ls @ [[]]"
proof (induction ls rule: Join_newline.induct)
  case 1
  then show ?case by simp
next
  case (2 l)
  then show ?case using Split_newline_no_newline [of l "[]"] by simp
next
  case (3 l m ls)
  then have "Split_newline (Join_newline (m # ls) @ [CHR 0x0A]) = (m # ls) @ [[]]" by simp
  with 3 Split_newline_no_newline [of l "Join_newline (m # ls) @ [CHR 0x0A]"]
  show ?case by simp
qed

lemma fixLines_loop_no_newline:
  "fixLines_loop settings ls fixed b p = Some out \<Longrightarrow>
   \<forall>l \<in> set ls \<union> set fixed. CHR 0x0A \<notin> set l \<Longrightarrow>
   \<forall>l \<in> set out. CHR 0x0A \<notin> set l"
proof (induction ls arbitrary: fixed b p)
  case Nil
  then show ?case by simp
next
  case (Cons line0 rest)
  from Cons.prems(1) obtain x where
    x: "fixIndentation settings (TrimRight line0 [CHR '' '', CHR 0x09]) p = Some x"
    by (auto split: option.splits)
  have "set x \<subseteq> insert (CHR '' '') (set line0)"
    using fixIndentation_set [OF x] set_TrimRight [of line0 "[CHR '' '', CHR 0x09]"] by blast
  with Cons.prems(2) have nx: "CHR 0x0A \<notin> set x" by auto
  show ?case
  proof (cases "TrimSpace x = []")
    case True
    with Cons.prems(1) x
    have "fixLines_loop settings rest (if \<not> b then fixed @ [x] else fixed) True p = Some out"
      by simp
    moreover have "\<forall>l \<in> set rest \<union> set (if \<not> b then fixed @ [x] else fixed). CHR 0x0A \<notin> set l"
      using Cons.prems(2) nx by auto
    ultimately show ?thesis by (rule Cons.IH)
  next
    case False
    with Cons.prems(1) x
    have "fixLines_loop settings rest (fixed @ [x]) False (countLeadingSpaces x) = Some out"
      by simp
    moreover have "\<forall>l \<in> set rest \<union> set (fixed @ [x]). CHR 0x0A \<notin> set l"
      using Cons.prems(2) nx by auto
    ultimately show ?thesis by (rule Cons.IH)
  qed
qed

lemma fixLines_two_empty: "fixLines settings [[], []] = Some [[]]"
  by (simp add: fixLines_def TrimRight_def fixIndentation_Nil TrimSpace_Nil)

text \<open>
  C3. For every workflow, whatever its bytes, the settings and the outcome of writing
  the file: the format fix returns (it does not panic), and applied again to the
  workflow it has left, it returns and leaves that workflow as it is, raw bytes
  included; both times the bytes written to the file are those raw bytes.
\<close>

theorem fixWorkflow_idempotent:
  "\<exists>err1 w1 fs1.
     fixWorkflow writeFile settings fs w = Some (err1, w1, fs1) \<and>
     (err1, fs1) = writeFile fs (wfFile w) (RawBytes w1) \<and>
     (\<exists>err2 fs2.
        fixWorkflow writeFile settings fs1 w1 = Some (err2, w1, fs2) \<and>
        (err2, fs2) = writeFile fs1 (wfFile w) (RawBytes w1))"
proof -
  obtain out where out: "fixLines settings (Lines w) = Some out"
    unfolding fixLines_def using fixLines_loop_total [of 0] by blast
  define F where "F = removeTrailingEmpty out"
  define content where "content = Join_newline F @ [CHR 0x0A]"
  define w1 where "w1 = w\<lparr>RawBytes := content\<rparr>"
  have first: "fixWorkflow writeFile settings fs w =
      Some (fst (writeFile fs (wfFile w) content), w1, snd (writeFile fs (wfFile w) content))"
    by (simp add: fixWorkflow_def out Let_def F_def content_def w1_def split: prod.splits)
  have nonl: "\<forall>l \<in> set F. CHR 0x0A \<notin> set l"
  proof -
    have "\<forall>l \<in> set (Lines w) \<union> set []. CHR 0x0A \<notin> set l"
      by (auto simp: Lines_def dest: Split_newline_lines)
    from fixLines_loop_no_newline [OF out [unfolded fixLines_def] this]
    show ?thesis unfolding F_def using set_removeTrailingEmpty [of out] by blast
  qed
  have again: "\<exists>out2. fixLines settings (Lines w1) = Some out2 \<and> removeTrailingEmpty out2 = F"
  proof (cases "F = []")
    case True
    then have "Lines w1 = [[], []]" by (simp add: Lines_def w1_def content_def)
    then show ?thesis
      using True by (simp add: fixLines_two_empty removeTrailingEmpty_empty_line)
  next
    case False
    with nonl have "Lines w1 = F @ [[]]"
      by (simp add: Lines_def w1_def content_def Split_Join_newline)
    with fixLines_loop_again [OF _ out [unfolded fixLines_def], of]
    show ?thesis by (simp add: fixLines_def F_def)
  qed
  then obtain out2 where out2: "fixLines settings (Lines w1) = Some out2"
    "removeTrailingEmpty out2 = F" by blast
  have w1_same: "w1\<lparr>RawBytes := content\<rparr> = w1" by (simp add: w1_def)
  have second: "fixWorkflow writeFile settings fs' w1 =
      Some (fst (writeFile fs' (wfFile w) content), w1, snd (writeFile fs' (wfFile w) content))"
    for fs'
    using out2 w1_same
    by (simp add: fixWorkflow_def Let_def content_def split: prod.splits) (simp add: w1_def)
  have rb: "RawBytes w1 = content" by (simp add: w1_def)
  let ?r1 = "writeFile fs (wfFile w) content"
  let ?r2 = "writeFile (snd ?r1) (wfFile w) content"
  show ?thesis
  proof (intro exI conjI)
    show "fixWorkflow writeFile settings fs w = Some (fst ?r1, w1, snd ?r1)"
      by (rule first)
    show "(fst ?r1, snd ?r1) = writeFile fs (wfFile w) (RawBytes w1)"
      by (simp add: rb)
    show "fixWorkflow writeFile settings (snd ?r1) w1 = Some (fst ?r2, w1, snd ?r2)"
      by (rule second)
    show "(fst ?r2, snd ?r2) = writeFile (snd ?r1) (wfFile w) (RawBytes w1)"
      by (simp add: rb)
  qed
qed


text \<open>
  The fix at work, with an indent width of 2: trailing white space goes, three blank
  lines become one, a jump of four spaces after the comment becomes a jump of two, and
  the blank lines at the end go.
\<close>

lemma fixWorkflow_example:
  "map_option (\<lambda>r. RawBytes (fst (snd r)))
     (fixWorkflow write_to_map (Some \<lparr>IndentWidth = 2, MaxLineLength = 120\<rparr>) Map.empty
        \<lparr>wfFile = ''ci.yml'', Content = None,
         RawBytes = ''jobs:  '' @ [CHR 0x0A, CHR 0x0A, CHR 0x0A] @ ''  # build'' @ [CHR 0x0A]
                    @ ''      build: 1 '' @ [CHR 0x09, CHR 0x0A] @ ''   '' @ [CHR 0x0A, CHR 0x0A],
         node = None\<rparr>)
   = Some (''jobs:'' @ [CHR 0x0A, CHR 0x0A] @ ''  # build'' @ [CHR 0x0A] @ ''    build: 1''
           @ [CHR 0x0A])"
  by code_simp

end
